theory Spec2Isabelle
  imports Complex_Main
begin

section \<open>TuneFree player: the playback and queue state machine\<close>

text \<open>
  The development embeds \<open>PlayerProvider\<close>, the React context provider that owns the single
  audio element, the play queue and the navigation mode. The provider exists in two revisions
  in the repository: the earlier one in \<open>src/contexts/PlayerContext.tsx\<close> and the later one,
  with persistence, the media-session bridge and the loaded-source test, in
  \<open>src/unnamed/part_000\<close> (lines 371 to 783). Both are embedded: the field \<open>revision\<close> of
  the state says which of the two runs, and a definition branches on it wherever the two
  texts differ.

  Conventions of the embedding.
  \<^item> JavaScript objects live in an explicit store \<open>heap\<close>; a reference is an index into it.
    The provider keeps references (\<open>currentSong\<close>, the entries of \<open>queue\<close>) and writes
    one field in place (\<open>fullSong.url = url\<close>), so two holders of the same object see the
    write. Objects are never freed; allocation appends.
  \<^item> Times are \<open>real\<close> and array indices are \<open>int\<close>; the times are only stored and
    never computed with. The one floating-point computation of the provider,
    \<open>Math.floor(Math.random() * queue.length)\<close>, is embedded with its rounding.
  \<^item> The identifier type of \<open>Song\<close> is declared in \<open>../types\<close>, outside the sources at
    hand; it is the type parameter \<open>'i\<close>, compared with \<open>===\<close> as equality.
  \<^item> Calls that leave the provider (the audio element, the audio context, the two remote
    lookups) are appended to the log \<open>calls\<close>. Of the audio element only \<open>src\<close> is read
    back by the code, so only \<open>src\<close> is state; the getter is taken to return the string that
    was assigned.
  \<^item> An \<open>async\<close> function is split at its \<open>await\<close>: the synchronous part is one
    function, each continuation another, taking what the closure captured as parameters.
  \<^item> A function of the component reads the state variables of the render that created it.
    That render is the parameter \<open>v\<close> of \<open>playSong\<close>, \<open>togglePlay\<close>, \<open>playNext\<close> and
    \<open>playPrev\<close>; what goes through a setter or a ref acts on the state itself.
  \<^item> Publishing to \<open>navigator.mediaSession\<close>, \<open>volume\<close> and \<open>analyser\<close> are outputs
    that the provider never reads back; they are left out.
\<close>

subsection \<open>Data\<close>

type_synonym ref = nat

record 'i song =
  song_id :: 'i
  name :: string
  artist :: string
  album :: "string option"
  pic :: "string option"
  source :: string
  url :: "string option"

datatype PlayMode = Sequence | Loop | Shuffle

datatype ctx_state = Suspended | Running | Closed

datatype 'i call =
    GetSongUrl 'i string
  | GetSongInfo 'i string
  | AudioLoad
  | AudioPlay
  | AudioPause
  | AudioSetCurrentTime real
  | CtxResume

record audio =
  src :: string

record song_info =
  info_pic :: "string option"

datatype revision = Earlier | Later

text \<open>The state variables that the closures of one render read.\<close>

record render =
  r_currentSong :: "ref option"
  r_queue :: "ref list"
  r_playMode :: PlayMode
  r_isPlaying :: bool

record 'i player =
  heap :: "'i song list"
  currentSong :: "ref option"
  isPlaying :: bool
  isLoading :: bool
  currentTime :: real
  duration :: real
  queue :: "ref list"
  playMode :: PlayMode
  audioRef :: "audio option"
  audioCtxRef :: "ctx_state option"
  href :: string
  calls :: "'i call list"
  storage :: "string \<rightharpoonup> string"
  changed :: "string set"
  revision :: revision
  nav_isPlaying :: bool
  first_render :: render

text \<open>
  \<open>changed\<close> holds the storage keys whose state variable received a new value since the
  last commit: React compares dependencies with \<open>Object.is\<close>, so a setter that returns
  \<open>prev\<close> itself schedules nothing and one that builds a new array or object does.

  Three renders matter.
  \<^item> \<open>latest\<close>: the context value is rebuilt by every render, so \<open>playSong\<close> and
    \<open>togglePlay\<close> called by a consumer read the current state (\<open>togglePlay\<close> is memoised
    on \<open>[isPlaying, currentSong]\<close> in the later revision, which are the two variables it
    reads).
  \<^item> \<open>nav_render\<close>: \<open>playNext\<close> and \<open>playPrev\<close> are memoised on
    \<open>[currentSong, queue, playMode]\<close>. They see these three as they are, but the
    \<open>togglePlay\<close> they reach through \<open>playSong\<close> is the one of the render in which one of
    the three last changed: its \<open>isPlaying\<close> is \<open>nav_isPlaying\<close>.
  \<^item> \<open>first_render\<close>: the listeners of the audio element are registered once, by the
    mount effect with the dependency list \<open>[]\<close>; \<open>ended\<close> calls the \<open>playNext\<close> of the
    first render for ever.
\<close>

definition latest :: "'i player \<Rightarrow> render" where
  "latest st = \<lparr>r_currentSong = currentSong st, r_queue = queue st,
                r_playMode = playMode st, r_isPlaying = isPlaying st\<rparr>"

definition nav_render :: "'i player \<Rightarrow> render" where
  "nav_render st = \<lparr>r_currentSong = currentSong st, r_queue = queue st,
                    r_playMode = playMode st, r_isPlaying = nav_isPlaying st\<rparr>"

subsection \<open>JavaScript helpers\<close>

definition truthy :: "string option \<Rightarrow> bool" where
  "truthy s = (case s of None \<Rightarrow> False | Some t \<Rightarrow> t \<noteq> [])"

fun findIndex :: "('a \<Rightarrow> bool) \<Rightarrow> 'a list \<Rightarrow> int" where
  "findIndex P [] = - 1"
| "findIndex P (x # xs) =
     (if P x then 0 else (let i = findIndex P xs in if i < 0 then - 1 else i + 1))"

definition js_rem :: "int \<Rightarrow> int \<Rightarrow> int" where
  "js_rem a b = sgn a * (\<bar>a\<bar> mod \<bar>b\<bar>)"

definition js_nth :: "'a list \<Rightarrow> int \<Rightarrow> 'a option" where
  "js_nth xs i = (if 0 \<le> i \<and> i < int (length xs) then Some (xs ! nat i) else None)"

definition deref :: "'i player \<Rightarrow> ref \<Rightarrow> 'i song" where
  "deref st r = heap st ! r"

definition id_of :: "'i player \<Rightarrow> ref \<Rightarrow> 'i" where
  "id_of st r = song_id (deref st r)"

definition alloc :: "'i song \<Rightarrow> 'i player \<Rightarrow> 'i player" where
  "alloc s st = st\<lparr>heap := heap st @ [s]\<rparr>"

definition invoke :: "'i call \<Rightarrow> 'i player \<Rightarrow> 'i player" where
  "invoke c st = st\<lparr>calls := calls st @ [c]\<rparr>"

definition src_loaded :: "'i player \<Rightarrow> bool" where
  "src_loaded st =
     (case audioRef st of None \<Rightarrow> False | Some a \<Rightarrow> src a \<noteq> [] \<and> src a \<noteq> href st)"

definition resume_ctx :: "'i player \<Rightarrow> 'i player" where
  "resume_ctx st = (if audioCtxRef st = Some Suspended then invoke CtxResume st else st)"

text \<open>
  \<open>Math.random()\<close> returns a double in \<open>[0, 1)\<close>: a pair \<open>(m, e)\<close> standing for
  \<open>m / 2 ^ e\<close> with \<open>m < 2 ^ 53\<close> and \<open>53 \<le> e \<le> 1074\<close>. \<open>queue.length\<close> is an integer
  below \<open>2 ^ 32\<close>, exact as a double. Their product in double arithmetic is the exact
  product rounded to 53 significant bits, to nearest, ties to even (\<open>round53\<close> works on the
  numerator), and \<open>Math.floor\<close> of it is the integer quotient by \<open>2 ^ e\<close>. The coarser
  step of the subnormal range never applies: a numerator of more than 53 bits over
  \<open>2 ^ e\<close> with \<open>e \<le> 1074\<close> is a normal number, and a shorter one is exact.
\<close>

type_synonym double01 = "nat \<times> nat"


fun bit_length :: "nat \<Rightarrow> nat" where
  "bit_length n = (if n = 0 then 0 else Suc (bit_length (n div 2)))"

declare bit_length.simps [simp del]

definition round53 :: "nat \<Rightarrow> nat" where
  "round53 p =
     (if bit_length p \<le> 53 then p
      else (let s = bit_length p - 53;
                q = p div 2 ^ s;
                r = p mod 2 ^ s;
                h = 2 ^ (s - 1)
            in (if h < r \<or> (r = h \<and> odd q) then q + 1 else q) * 2 ^ s))"

definition random_index :: "nat \<Rightarrow> double01 \<Rightarrow> int" where
  "random_index n d = int (round53 (fst d * n) div 2 ^ snd d)"

subsection \<open>State setters\<close>

definition key_queue :: string where
  "key_queue = ''tunefree_queue''"

definition key_current_song :: string where
  "key_current_song = ''tunefree_current_song''"

definition key_play_mode :: string where
  "key_play_mode = ''tunefree_play_mode''"

definition setCurrentSong :: "ref option \<Rightarrow> 'i player \<Rightarrow> 'i player" where
  "setCurrentSong v st =
     (if v = currentSong st then st
      else st\<lparr>currentSong := v, changed := insert key_current_song (changed st)\<rparr>)"

definition setQueue_new :: "ref list \<Rightarrow> 'i player \<Rightarrow> 'i player" where
  "setQueue_new q st = st\<lparr>queue := q, changed := insert key_queue (changed st)\<rparr>"

definition setPlayMode :: "PlayMode \<Rightarrow> 'i player \<Rightarrow> 'i player" where
  "setPlayMode m st =
     (if m = playMode st then st
      else st\<lparr>playMode := m, changed := insert key_play_mode (changed st)\<rparr>)"

text \<open>
  \<open>setQueue_new\<close> is a \<open>setQueue\<close> whose updater returns a freshly built array (a spread, a
  \<open>map\<close>, a \<open>filter\<close>, a literal); an updater that returns \<open>prev\<close> leaves the state as
  it is.
\<close>

subsection \<open>Queue operations\<close>

definition in_queue :: "'i player \<Rightarrow> 'i \<Rightarrow> bool" where
  "in_queue st i = (find (\<lambda>s. id_of st s = i) (queue st) \<noteq> None)"

definition addToQueue :: "ref \<Rightarrow> 'i player \<Rightarrow> 'i player" where
  "addToQueue song st =
     (if in_queue st (id_of st song) then st
      else setQueue_new (queue st @ [song]) st)"

definition removeFromQueue :: "'i \<Rightarrow> 'i player \<Rightarrow> 'i player" where
  "removeFromQueue songId st =
     setQueue_new (filter (\<lambda>s. id_of st s \<noteq> songId) (queue st)) st"

definition clearQueue :: "'i player \<Rightarrow> 'i player" where
  "clearQueue st = setQueue_new [] st"

definition togglePlayMode :: "'i player \<Rightarrow> 'i player" where
  "togglePlayMode st =
     setPlayMode (if playMode st = Sequence then Loop
                  else if playMode st = Loop then Shuffle
                  else Sequence) st"

subsection \<open>Playing a track\<close>

text \<open>
  \<open>playSong\<close> up to its \<open>await\<close>. \<open>same_id st cur song\<close> is \<open>cur?.id === song.id\<close>.
  \<open>playSong_begin\<close> is the part after the toggle test, the same in both revisions: it
  copies the track (\<open>{ ...song }\<close>, the new object \<open>fullSong\<close>), makes the copy current,
  appends it to the queue when no entry has its identifier, and issues \<open>getSongUrl\<close>. The
  reference of \<open>fullSong\<close> is the next free index, \<open>fullSong_of\<close>.
\<close>

definition same_id :: "'i player \<Rightarrow> ref option \<Rightarrow> ref \<Rightarrow> bool" where
  "same_id st cur song =
     (case cur of None \<Rightarrow> False | Some c \<Rightarrow> id_of st c = id_of st song)"

definition fullSong_of :: "'i player \<Rightarrow> ref" where
  "fullSong_of st = length (heap st)"

definition playSong_begin :: "ref \<Rightarrow> 'i player \<Rightarrow> 'i player" where
  "playSong_begin song st =
     (let st1 = st\<lparr>isLoading := True\<rparr>;
          fullSong = fullSong_of st1;
          st2 = alloc (deref st1 song) st1;
          st3 = setCurrentSong (Some fullSong) st2;
          st4 = (if in_queue st3 (id_of st3 song) then st3
                 else setQueue_new (queue st3 @ [fullSong]) st3)
      in invoke (GetSongUrl (id_of st4 song) (source (deref st4 song))) st4)"

text \<open>
  The body of \<open>togglePlay\<close> after its guards; \<open>isPlaying\<close> is read from the render.
\<close>

definition toggle_now :: "render \<Rightarrow> 'i player \<Rightarrow> 'i player" where
  "toggle_now v st =
     (let st1 = resume_ctx st
      in if r_isPlaying v
         then (invoke AudioPause st1)\<lparr>isPlaying := False\<rparr>
         else (invoke AudioPlay st1)\<lparr>isPlaying := True\<rparr>)"

text \<open>
  The toggle test of \<open>playSong\<close> asks for a loaded source in the later revision only, and
  only the later \<open>togglePlay\<close> hands a current track without a source back to
  \<open>playSong\<close>.
\<close>

function playSong :: "render \<Rightarrow> ref \<Rightarrow> 'i player \<Rightarrow> 'i player"
  and togglePlay :: "render \<Rightarrow> 'i player \<Rightarrow> 'i player" where
  "playSong v song st =
     (if audioRef st = None then st
      else if same_id st (r_currentSong v) song \<and> (revision st = Earlier \<or> src_loaded st)
      then togglePlay v st
      else playSong_begin song st)"
| "togglePlay v st =
     (if audioRef st = None \<or> r_currentSong v = None then st
      else if revision st = Later \<and> \<not> src_loaded st
      then playSong v (the (r_currentSong v)) st
      else toggle_now v st)"
  by pat_completeness auto
termination
  by (relation "measure (\<lambda>x. case x of
        Inl (v, song, st) \<Rightarrow> if revision st = Later \<and> \<not> src_loaded st then 0 else 1
      | Inr (v, st) \<Rightarrow> if revision st = Later \<and> \<not> src_loaded st then 1 else 0)") auto

declare playSong.simps [simp del]
declare togglePlay.simps [simp del]

text \<open>
  The continuation of \<open>playSong\<close> after \<open>await getSongUrl\<close>, for the call that was made
  with \<open>song\<close> and created \<open>fullSong\<close>. \<open>u\<close> is what the lookup resolved to (\<open>None\<close> is
  \<open>null\<close>). A missing audio element makes \<open>audioRef.current.src = url\<close> throw after
  \<open>fullSong.url\<close> was written; the \<open>catch\<close> clears the loading flag. The earlier revision
  sets the play flag here, between \<open>load()\<close> and \<open>play()\<close>; the later one sets it when the
  promise of \<open>play()\<close> is fulfilled.
\<close>

definition getSongUrl_resolved :: "ref \<Rightarrow> ref \<Rightarrow> string option \<Rightarrow> 'i player \<Rightarrow> 'i player" where
  "getSongUrl_resolved song fullSong u st =
     (let st1 = (if \<not> truthy (pic (deref st song))
                 then invoke (GetSongInfo (id_of st song) (source (deref st song))) st
                 else st)
      in if truthy u
         then (let st2 = st1\<lparr>heap := (heap st1)[fullSong := (deref st1 fullSong)\<lparr>url := u\<rparr>]\<rparr>
               in case audioRef st2 of
                    None \<Rightarrow> st2\<lparr>isLoading := False\<rparr>
                  | Some a \<Rightarrow>
                      (let st3 = invoke AudioLoad (st2\<lparr>audioRef := Some (a\<lparr>src := the u\<rparr>)\<rparr>);
                           st4 = (if revision st3 = Earlier then st3\<lparr>isPlaying := True\<rparr>
                                  else st3)
                       in invoke AudioPlay (resume_ctx st4)))
         else st1\<lparr>isLoading := False\<rparr>)"

definition getSongUrl_rejected :: "'i player \<Rightarrow> 'i player" where
  "getSongUrl_rejected st = st\<lparr>isLoading := False\<rparr>"

text \<open>
  The two outcomes of the promise returned by \<open>audio.play()\<close> in \<open>playSong\<close>; the earlier
  revision attaches no handler for fulfilment.
\<close>

definition play_resolved :: "'i player \<Rightarrow> 'i player" where
  "play_resolved st = (if revision st = Later then st\<lparr>isPlaying := True\<rparr> else st)"

definition play_rejected :: "'i player \<Rightarrow> 'i player" where
  "play_rejected st = st\<lparr>isPlaying := False\<rparr>"

text \<open>
  The callback of \<open>getSongInfo(...).then\<close>, for the same call. \<open>info\<close> is what the lookup
  resolved to. \<open>updated\<close> is a new object, \<open>{ ...fullSong, pic: info.pic }\<close>, read when the
  callback runs; the two setters take updater functions, so they read the state itself.
  There is no \<open>catch\<close>: a rejected lookup runs no code of the provider.
\<close>

definition getSongInfo_resolved :: "ref \<Rightarrow> ref \<Rightarrow> song_info option \<Rightarrow> 'i player \<Rightarrow> 'i player" where
  "getSongInfo_resolved song fullSong info st =
     (case info of
        None \<Rightarrow> st
      | Some i \<Rightarrow>
          if truthy (info_pic i)
          then (let updated = fullSong_of st;
                    st1 = alloc ((deref st fullSong)\<lparr>pic := info_pic i\<rparr>) st;
                    st2 = (if same_id st1 (currentSong st1) song
                           then setCurrentSong (Some updated) st1 else st1)
                in setQueue_new
                     (map (\<lambda>s. if id_of st2 s = id_of st2 song then updated else s) (queue st2))
                     st2)
          else st)"

definition getSongInfo_rejected :: "'i player \<Rightarrow> 'i player" where
  "getSongInfo_rejected st = st"

subsection \<open>Seeking and queue navigation\<close>

definition seek :: "real \<Rightarrow> 'i player \<Rightarrow> 'i player" where
  "seek time st =
     (if audioRef st = None then st
      else (invoke (AudioSetCurrentTime time) st)\<lparr>currentTime := time\<rparr>)"

text \<open>
  \<open>Math.random()\<close> is an input: \<open>playNext\<close> takes the doubles it returns during the call,
  in order, and \<open>playPrev\<close> the single one it reads. The \<open>do ... while\<close> loop of the
  shuffle branch consumes one per round; \<open>None\<close> means that the loop is still running
  after all the values given.
\<close>

fun shuffle_loop :: "double01 list \<Rightarrow> nat \<Rightarrow> int \<Rightarrow> int option" where
  "shuffle_loop [] n currentIndex = None"
| "shuffle_loop (d # ds) n currentIndex =
     (let nextIndex = random_index n d
      in if n > 1 \<and> nextIndex = currentIndex then shuffle_loop ds n currentIndex
         else Some nextIndex)"

text \<open>
  \<open>playSong(queue[i])\<close>: an index outside the array reads \<open>undefined\<close>, and
  \<open>playSong(undefined)\<close> either returns at once (no audio element) or rejects at
  \<open>song.id\<close> before any write; both leave the state as it is.
\<close>

definition playSong_at :: "render \<Rightarrow> ref option \<Rightarrow> 'i player \<Rightarrow> 'i player" where
  "playSong_at v r st = (case r of None \<Rightarrow> st | Some song \<Rightarrow> playSong v song st)"

text \<open>
  \<open>queue.findIndex(s => s.id === currentSong.id)\<close> on the queue and the current track of
  a render; \<open>current_index\<close> is the same on the state itself, the queue position of the
  current track.
\<close>

definition render_index :: "'i player \<Rightarrow> render \<Rightarrow> int" where
  "render_index st v =
     findIndex (\<lambda>s. id_of st s = id_of st (the (r_currentSong v))) (r_queue v)"

definition current_index :: "'i player \<Rightarrow> int" where
  "current_index st =
     findIndex (\<lambda>s. id_of st s = id_of st (the (currentSong st))) (queue st)"

definition playNext :: "render \<Rightarrow> bool \<Rightarrow> double01 list \<Rightarrow> 'i player \<Rightarrow> 'i player option" where
  "playNext v force draws st =
     (if r_queue v = [] \<or> r_currentSong v = None then Some st
      else if \<not> force \<and> r_playMode v = Loop
      then Some (if audioRef st = None then st
                 else invoke AudioPlay (invoke (AudioSetCurrentTime 0) st))
      else (let currentIndex = render_index st v
            in case (if r_playMode v = Shuffle
                     then shuffle_loop draws (length (r_queue v)) currentIndex
                     else Some (js_rem (currentIndex + 1) (int (length (r_queue v))))) of
                 None \<Rightarrow> None
               | Some nextIndex \<Rightarrow> Some (playSong_at v (js_nth (r_queue v) nextIndex) st)))"

definition playPrev :: "render \<Rightarrow> double01 \<Rightarrow> 'i player \<Rightarrow> 'i player" where
  "playPrev v draw st =
     (if r_queue v = [] \<or> r_currentSong v = None then st
      else (let currentIndex = render_index st v;
                prevIndex = (if r_playMode v = Shuffle
                             then random_index (length (r_queue v)) draw
                             else js_rem (currentIndex - 1 + int (length (r_queue v)))
                                    (int (length (r_queue v))))
            in playSong_at v (js_nth (r_queue v) prevIndex) st))"

subsection \<open>The listeners of the audio element\<close>

text \<open>
  \<open>handleTimeUpdate\<close> and \<open>handleLoadedMetadata\<close> read \<open>audio.currentTime\<close> and
  \<open>audio.duration\<close>; the value the element reports is the parameter. The listeners are
  closures of the first render: \<open>handleEnded\<close> calls its \<open>playNext\<close>, and the earlier
  \<open>handleLoadedMetadata\<close> tests its \<open>isPlaying\<close> before it calls \<open>play()\<close>.
\<close>

definition handleTimeUpdate :: "real \<Rightarrow> 'i player \<Rightarrow> 'i player" where
  "handleTimeUpdate t st = st\<lparr>currentTime := t\<rparr>"

definition handleLoadedMetadata :: "real \<Rightarrow> 'i player \<Rightarrow> 'i player" where
  "handleLoadedMetadata d st =
     (let st1 = st\<lparr>duration := d, isLoading := False\<rparr>
      in if revision st1 = Earlier \<and> r_isPlaying (first_render st1)
         then invoke AudioPlay (resume_ctx st1)
         else st1)"

definition handleEnded :: "double01 list \<Rightarrow> 'i player \<Rightarrow> 'i player option" where
  "handleEnded draws st = playNext (first_render st) False draws st"

definition handleError :: "'i player \<Rightarrow> 'i player" where
  "handleError st = st\<lparr>isLoading := False, isPlaying := False\<rparr>"

definition handleWaiting :: "'i player \<Rightarrow> 'i player" where
  "handleWaiting st = st\<lparr>isLoading := True\<rparr>"

definition handleCanPlay :: "'i player \<Rightarrow> 'i player" where
  "handleCanPlay st = st\<lparr>isLoading := False\<rparr>"

subsection \<open>Persistence\<close>

text \<open>
  \<open>JSON.parse\<close> belongs to the platform and is a parameter; it returns \<open>Inl\<close> where it
  throws and a JSON value otherwise. \<open>getLocal<T>\<close> returns that value as it is: the type
  argument is erased, nothing tests the shape of what was parsed. \<open>localStorage\<close> is either
  blocked, so that every access throws, or a table of strings; quota errors of \<open>setItem\<close>
  are not modelled.
\<close>

datatype js_error = SecurityError | SyntaxError

datatype json =
    JNull
  | JBool bool
  | JNum real
  | JStr string
  | JArr "json list"
  | JObj "(string \<times> json) list"

datatype localStorage = Blocked | Items "string \<rightharpoonup> string"

definition getItem :: "localStorage \<Rightarrow> string \<Rightarrow> js_error + string option" where
  "getItem ls key = (case ls of Blocked \<Rightarrow> Inl SecurityError | Items m \<Rightarrow> Inr (m key))"

definition getLocal :: "(string \<Rightarrow> js_error + json) \<Rightarrow> localStorage \<Rightarrow> string \<Rightarrow> json \<Rightarrow> json" where
  "getLocal parse_json ls key def =
     (case getItem ls key of
        Inl e \<Rightarrow> def
      | Inr None \<Rightarrow> def
      | Inr (Some item) \<Rightarrow>
          if item = [] then def
          else (case parse_json item of Inl e \<Rightarrow> def | Inr v \<Rightarrow> v))"

text \<open>
  The state of the embedding is typed as the source declares it: \<open>Song[]\<close>,
  \<open>Song | null\<close>, \<open>PlayMode\<close>. \<open>as_queue\<close>, \<open>as_song\<close> and \<open>as_mode\<close> give the typed
  reading of a JSON value that has such a type and \<open>None\<close> for any other value.
  \<open>as_track\<close>, the JSON objects that are a \<open>Song\<close>, is a parameter with the declaration
  of \<open>Song\<close>, as are the three uses of \<open>JSON.stringify\<close>.
\<close>

record 'i codec =
  stringify_queue :: "'i song list \<Rightarrow> string"
  stringify_song :: "'i song option \<Rightarrow> string"
  stringify_mode :: "PlayMode \<Rightarrow> string"
  parse :: "string \<Rightarrow> js_error + json"
  as_track :: "json \<Rightarrow> 'i song option"

definition as_mode :: "json \<Rightarrow> PlayMode option" where
  "as_mode v =
     (case v of
        JStr s \<Rightarrow> if s = ''sequence'' then Some Sequence
                  else if s = ''loop'' then Some Loop
                  else if s = ''shuffle'' then Some Shuffle
                  else None
      | _ \<Rightarrow> None)"

definition as_song :: "'i codec \<Rightarrow> json \<Rightarrow> 'i song option option" where
  "as_song c v = (case v of JNull \<Rightarrow> Some None | _ \<Rightarrow> map_option Some (as_track c v))"

definition as_queue :: "'i codec \<Rightarrow> json \<Rightarrow> 'i song list option" where
  "as_queue c v =
     (case v of
        JArr xs \<Rightarrow> if list_all (\<lambda>x. as_track c x \<noteq> None) xs
                   then Some (map (\<lambda>x. the (as_track c x)) xs) else None
      | _ \<Rightarrow> None)"

text \<open>
  The first render. \<open>initial_state\<close> builds the state from the initial values of
  \<open>currentSong\<close>, \<open>queue\<close> and \<open>playMode\<close>; the objects are new, so a restored current
  track and a restored queue share nothing. The closures of this render are what the
  listeners of the audio element keep.
\<close>

definition initial_state ::
  "revision \<Rightarrow> 'i song option \<Rightarrow> 'i song list \<Rightarrow> PlayMode \<Rightarrow> (string \<rightharpoonup> string) \<Rightarrow> string
     \<Rightarrow> 'i player" where
  "initial_state rv cur q m t h =
     (let objs = (case cur of None \<Rightarrow> [] | Some s \<Rightarrow> [s]);
          c = (case cur of None \<Rightarrow> None | Some s \<Rightarrow> Some 0);
          refs = [length objs ..< length objs + length q]
      in \<lparr>heap = objs @ q,
          currentSong = c,
          isPlaying = False,
          isLoading = False,
          currentTime = 0,
          duration = 0,
          queue = refs,
          playMode = m,
          audioRef = None,
          audioCtxRef = None,
          href = h,
          calls = [],
          storage = t,
          changed = {key_queue, key_current_song, key_play_mode},
          revision = rv,
          nav_isPlaying = False,
          first_render = \<lparr>r_currentSong = c, r_queue = refs, r_playMode = m,
                           r_isPlaying = False\<rparr>\<rparr>)"

text \<open>
  The \<open>useState\<close> initialisers. The earlier revision starts from \<open>null\<close>, \<open>[]\<close> and
  \<open>'sequence'\<close>; the later one from \<open>getLocal\<close>, in the order of the source. A record
  that parses to a value of another type than the variable's is taken as it is by the
  source, which then runs on a state outside its declared types (\<open>queue.length\<close> of
  \<open>null\<close> throws at the first \<open>playNext\<close>); the embedding does not follow it there and
  answers \<open>None\<close>.
\<close>

definition PlayerProvider_init ::
  "'i codec \<Rightarrow> revision \<Rightarrow> localStorage \<Rightarrow> string \<Rightarrow> 'i player option" where
  "PlayerProvider_init c rv ls h =
     (let t = (case ls of Blocked \<Rightarrow> Map.empty | Items t \<Rightarrow> t)
      in case rv of
           Earlier \<Rightarrow> Some (initial_state Earlier None [] Sequence t h)
         | Later \<Rightarrow>
             (case as_song c (getLocal (parse c) ls key_current_song JNull) of
                None \<Rightarrow> None
              | Some cur \<Rightarrow>
                  (case as_queue c (getLocal (parse c) ls key_queue (JArr [])) of
                     None \<Rightarrow> None
                   | Some q \<Rightarrow>
                       (case as_mode (getLocal (parse c) ls key_play_mode (JStr ''sequence'')) of
                          None \<Rightarrow> None
                        | Some m \<Rightarrow> Some (initial_state Later cur q m t h)))))"

text \<open>
  The three persistence effects of the later revision, run after a render for the keys in
  \<open>changed\<close>; each serialises what the state variable refers to when the effect runs.
\<close>

definition persist_queue :: "'i codec \<Rightarrow> 'i player \<Rightarrow> 'i player" where
  "persist_queue c st =
     (if revision st = Later \<and> key_queue \<in> changed st
      then st\<lparr>storage := (storage st)(key_queue \<mapsto>
                 stringify_queue c (map (deref st) (queue st)))\<rparr>
      else st)"

definition persist_current_song :: "'i codec \<Rightarrow> 'i player \<Rightarrow> 'i player" where
  "persist_current_song c st =
     (if revision st = Later \<and> key_current_song \<in> changed st
      then st\<lparr>storage := (storage st)(key_current_song \<mapsto>
                 stringify_song c (map_option (deref st) (currentSong st)))\<rparr>
      else st)"

definition persist_play_mode :: "'i codec \<Rightarrow> 'i player \<Rightarrow> 'i player" where
  "persist_play_mode c st =
     (if revision st = Later \<and> key_play_mode \<in> changed st
      then st\<lparr>storage := (storage st)(key_play_mode \<mapsto> stringify_mode c (playMode st))\<rparr>
      else st)"

text \<open>
  One render after an event: \<open>playNext\<close> and \<open>playPrev\<close> are rebuilt, and so take the
  \<open>isPlaying\<close> of this render, when one of \<open>currentSong\<close>, \<open>queue\<close>, \<open>playMode\<close> has a
  new value; then the scheduled persistence effects run.
\<close>

definition commit :: "'i codec \<Rightarrow> 'i player \<Rightarrow> 'i player" where
  "commit c st =
     (let st1 = (if changed st = {} then st else st\<lparr>nav_isPlaying := isPlaying st\<rparr>)
      in (persist_play_mode c (persist_current_song c (persist_queue c st1)))
           \<lparr>changed := {}\<rparr>)"

text \<open>
  Mounting: the first render, its persistence effects, then the effect that creates the
  audio element. \<open>ctx\<close> is the audio context that the platform grants (\<open>None\<close> on iOS in
  the later revision, or where the Web Audio API is missing or fails). With a blocked
  \<open>localStorage\<close> the first \<open>setItem\<close> of the later revision throws inside its effect,
  and nothing catches it.
\<close>

definition mount ::
  "'i codec \<Rightarrow> revision \<Rightarrow> localStorage \<Rightarrow> string \<Rightarrow> ctx_state option \<Rightarrow> 'i player option" where
  "mount c rv ls h ctx =
     (case PlayerProvider_init c rv ls h of
        None \<Rightarrow> None
      | Some st \<Rightarrow>
          (case (rv, ls) of
             (Later, Blocked) \<Rightarrow> None
           | _ \<Rightarrow> Some ((commit c st)\<lparr>audioRef := Some \<lparr>src = []\<rparr>, audioCtxRef := ctx\<rparr>)))"

subsection \<open>The provider as a transition system\<close>

text \<open>
  The events of a mounted provider, each with the render whose closure handles it: a
  consumer's \<open>playSong\<close> and \<open>togglePlay\<close> with \<open>latest\<close>, \<open>playNext\<close> and \<open>playPrev\<close>
  with \<open>nav_render\<close>, the \<open>ended\<close> listener with \<open>first_render\<close>.
\<close>

datatype 'i event =
    PlaySong ref
  | TogglePlay
  | Seek real
  | PlayNext bool "double01 list"
  | PlayPrev double01
  | AddToQueue ref
  | RemoveFromQueue 'i
  | ClearQueue
  | TogglePlayMode
  | UrlResolved ref ref "string option"
  | UrlRejected
  | PlayResolved
  | PlayRejected
  | InfoResolved ref ref "song_info option"
  | InfoRejected
  | TimeUpdate real
  | LoadedMetadata real
  | Ended "double01 list"
  | AudioError
  | Waiting
  | CanPlay

fun handle :: "'i event \<Rightarrow> 'i player \<Rightarrow> 'i player option" where
  "handle (PlaySong song) st = Some (playSong (latest st) song st)"
| "handle TogglePlay st = Some (togglePlay (latest st) st)"
| "handle (Seek t) st = Some (seek t st)"
| "handle (PlayNext force draws) st = playNext (nav_render st) force draws st"
| "handle (PlayPrev draw) st = Some (playPrev (nav_render st) draw st)"
| "handle (AddToQueue song) st = Some (addToQueue song st)"
| "handle (RemoveFromQueue i) st = Some (removeFromQueue i st)"
| "handle ClearQueue st = Some (clearQueue st)"
| "handle TogglePlayMode st = Some (togglePlayMode st)"
| "handle (UrlResolved song fullSong u) st = Some (getSongUrl_resolved song fullSong u st)"
| "handle UrlRejected st = Some (getSongUrl_rejected st)"
| "handle PlayResolved st = Some (play_resolved st)"
| "handle PlayRejected st = Some (play_rejected st)"
| "handle (InfoResolved song fullSong info) st = Some (getSongInfo_resolved song fullSong info st)"
| "handle InfoRejected st = Some (getSongInfo_rejected st)"
| "handle (TimeUpdate t) st = Some (handleTimeUpdate t st)"
| "handle (LoadedMetadata d) st = Some (handleLoadedMetadata d st)"
| "handle (Ended draws) st = handleEnded draws st"
| "handle AudioError st = Some (handleError st)"
| "handle Waiting st = Some (handleWaiting st)"
| "handle CanPlay st = Some (handleCanPlay st)"

definition react :: "'i codec \<Rightarrow> 'i event \<Rightarrow> 'i player \<Rightarrow> 'i player option" where
  "react c e st = map_option (commit c) (handle e st)"

text \<open>A run of events, each followed by its render.\<close>

fun run :: "'i codec \<Rightarrow> 'i event list \<Rightarrow> 'i player \<Rightarrow> 'i player option" where
  "run c [] st = Some st"
| "run c (e # es) st = (case react c e st of None \<Rightarrow> None | Some st' \<Rightarrow> run c es st')"

text \<open>\<open>next(true)\<close> applied \<open>k\<close> times in a row.\<close>

definition next_times :: "'i codec \<Rightarrow> nat \<Rightarrow> 'i player \<Rightarrow> 'i player option" where
  "next_times c k st = run c (replicate k (PlayNext True [])) st"

subsection \<open>Invariants of the session\<close>

text \<open>
  Every reference held by the session points into the store, and the queue is unique by
  identifier (section 3 of the specification).
\<close>

definition well_formed :: "'i player \<Rightarrow> bool" where
  "well_formed st =
     ((\<forall>r \<in> set (queue st). r < length (heap st)) \<and>
      (case currentSong st of None \<Rightarrow> True | Some c \<Rightarrow> c < length (heap st)))"

definition unique_ids :: "'i player \<Rightarrow> bool" where
  "unique_ids st = distinct (map (id_of st) (queue st))"

text \<open>The references of a render point into the store.\<close>

definition render_ok :: "'i player \<Rightarrow> render \<Rightarrow> bool" where
  "render_ok st v =
     ((\<forall>r \<in> set (r_queue v). r < length (heap st)) \<and>
      (case r_currentSong v of None \<Rightarrow> True | Some c \<Rightarrow> c < length (heap st)))"

text \<open>
  A handler that gives \<open>queue\<close>, \<open>currentSong\<close> or \<open>playMode\<close> a new value schedules
  the persistence effect of that variable.
\<close>

definition tracked :: "'i player \<Rightarrow> 'i player \<Rightarrow> bool" where
  "tracked st st' =
     ((queue st' \<noteq> queue st \<longrightarrow> key_queue \<in> changed st') \<and>
      (currentSong st' \<noteq> currentSong st \<longrightarrow> key_current_song \<in> changed st') \<and>
      (playMode st' \<noteq> playMode st \<longrightarrow> key_play_mode \<in> changed st'))"

text \<open>
  The references an event carries point into the store, and a continuation carries the
  \<open>song\<close> and the \<open>fullSong\<close> of one call of \<open>playSong\<close>, the second a copy of the first.
\<close>

fun event_ok :: "'i player \<Rightarrow> 'i event \<Rightarrow> bool" where
  "event_ok st (PlaySong song) = (song < length (heap st))"
| "event_ok st (AddToQueue song) = (song < length (heap st))"
| "event_ok st (UrlResolved song fullSong u) =
     (song < length (heap st) \<and> fullSong < length (heap st) \<and>
      id_of st fullSong = id_of st song)"
| "event_ok st (InfoResolved song fullSong info) =
     (song < length (heap st) \<and> fullSong < length (heap st) \<and>
      id_of st fullSong = id_of st song)"
| "event_ok st e = True"

subsection \<open>Sessions for evaluation\<close>

definition track :: "nat \<Rightarrow> nat song" where
  "track i = \<lparr>song_id = i, name = ''track'', artist = ''artist'', album = None,
              pic = None, source = ''netease'', url = None\<rparr>"

text \<open>
  A mounted session of the later revision, restored with the queue \<open>[T1, T2, T3]\<close> and
  \<open>T2\<close> current, nothing loaded into the audio element yet.
\<close>

definition session :: "nat player" where
  "session = \<lparr>heap = [track 1, track 2, track 3],
              currentSong = Some 1,
              isPlaying = False,
              isLoading = False,
              currentTime = 0,
              duration = 0,
              queue = [0, 1, 2],
              playMode = Sequence,
              audioRef = Some \<lparr>src = []\<rparr>,
              audioCtxRef = None,
              href = ''https://tunefree.app/'',
              calls = [],
              storage = Map.empty,
              changed = {},
              revision = Later,
              nav_isPlaying = False,
              first_render = \<lparr>r_currentSong = Some 1, r_queue = [0, 1, 2],
                               r_playMode = Sequence, r_isPlaying = False\<rparr>\<rparr>"

text \<open>
  The same session while \<open>T2\<close> plays from a loaded source, 200 seconds long. The play
  flag was set after the last change of track, queue or mode, so \<open>playNext\<close> and
  \<open>playPrev\<close> still hold the \<open>togglePlay\<close> that reads \<open>false\<close>.
\<close>

definition playing_session :: "nat player" where
  "playing_session =
     session\<lparr>isPlaying := True, duration := 200, currentTime := 42,
             audioRef := Some \<lparr>src = ''https://cdn.example/2.mp3''\<rparr>\<rparr>"

text \<open>The playing session in single-repeat mode, and the session in shuffle mode.\<close>

definition looping_session :: "nat player" where
  "looping_session = playing_session\<lparr>playMode := Loop\<rparr>"

definition shuffling_session :: "nat player" where
  "shuffling_session = session\<lparr>playMode := Shuffle\<rparr>"

text \<open>
  A stand-in for the platform's JSON functions, enough to run the persistence effects.
  \<open>toy_parse\<close> knows the texts \<open>null\<close>, \<open>[]\<close>, \<open>{}\<close> and a string in double quotes
  without escapes; the ones used below are \<open>null\<close>, \<open>{}\<close>, \<open>"loop"\<close> and \<open>"party"\<close>,
  which it reads as \<open>JSON.parse\<close> does. It rejects every other text, of which only \<open>{\<close>,
  which \<open>JSON.parse\<close> rejects as well, is used below. No JSON object is a track for it.
  The stand-in for \<open>JSON.stringify\<close> writes a track as the word \<open>track\<close> and its
  \<open>url\<close>, a queue as its tracks in brackets, and a mode as its quoted name.
\<close>

definition quoted :: "string \<Rightarrow> string" where
  "quoted s = CHR 0x22 # s @ [CHR 0x22]"

definition toy_parse :: "string \<Rightarrow> js_error + json" where
  "toy_parse t =
     (if t = ''null'' then Inr JNull
      else if t = ''[]'' then Inr (JArr [])
      else if t = ''{}'' then Inr (JObj [])
      else if 2 \<le> length t \<and> hd t = CHR 0x22 \<and> last t = CHR 0x22
              \<and> CHR 0x22 \<notin> set (butlast (tl t)) \<and> CHR 0x5C \<notin> set t
      then Inr (JStr (butlast (tl t)))
      else Inl SyntaxError)"

definition toy_track :: "nat song \<Rightarrow> string" where
  "toy_track s = ''track '' @ (case url s of None \<Rightarrow> ''-'' | Some u \<Rightarrow> u)"

definition toy_codec :: "nat codec" where
  "toy_codec =
     \<lparr>stringify_queue = (\<lambda>q. ''['' @ concat (map (\<lambda>s. toy_track s @ '';'') q) @ '']''),
      stringify_song = (\<lambda>c. case c of None \<Rightarrow> ''null'' | Some s \<Rightarrow> toy_track s),
      stringify_mode = (\<lambda>m. case m of Sequence \<Rightarrow> quoted ''sequence''
                                    | Loop \<Rightarrow> quoted ''loop''
                                    | Shuffle \<Rightarrow> quoted ''shuffle''),
      parse = toy_parse,
      as_track = (\<lambda>v. None)\<rparr>"

text \<open>
  A lookup that delivers no URL: the provider mounted on an empty \<open>localStorage\<close>,
  \<open>T2\<close> is played and \<open>getSongUrl\<close> resolves to \<open>null\<close>. \<open>T2\<close> is current and
  the audio element has no source.
\<close>

definition stalled :: "revision \<Rightarrow> nat player option" where
  "stalled rv =
     (case mount toy_codec rv (Items Map.empty) ''https://tunefree.app/'' None of
        None \<Rightarrow> None
      | Some st \<Rightarrow> run toy_codec [PlaySong 0, UrlResolved 0 1 None] (alloc (track 2) st))"

text \<open>
  A first visit: the provider mounted on an empty \<open>localStorage\<close>; \<open>T1\<close>, 200 seconds
  long, is played and starts, the mode is switched to single repeat, and the track reaches
  its end.
\<close>

definition first_visit :: "revision \<Rightarrow> nat player option" where
  "first_visit rv =
     (case mount toy_codec rv (Items Map.empty) ''https://tunefree.app/'' None of
        None \<Rightarrow> None
      | Some st \<Rightarrow>
          run toy_codec
            [PlaySong 0, UrlResolved 0 1 (Some ''https://cdn.example/1.mp3''),
             LoadedMetadata 200, PlayResolved, TogglePlayMode, TimeUpdate 200]
            (alloc (track 1) st))"

text \<open>
  Two tracks played in a row before any lookup returns: \<open>T1\<close> then \<open>T3\<close> on the
  session, and \<open>T4\<close>, not queued before, then \<open>T3\<close>.
\<close>

definition overtaken_session :: "nat player" where
  "overtaken_session =
     (let st1 = playSong (latest session) 0 session
      in playSong (latest st1) 2 st1)"

definition superseded_session :: "nat player" where
  "superseded_session =
     (let st0 = alloc (track 4) session;
          st1 = playSong (latest st0) 3 st0
      in playSong (latest st1) 2 st1)"

text \<open>
  The session after \<open>T1\<close> was played and its lookup delivered a URL, each followed by
  its render; the copy of \<open>T1\<close> made by \<open>playSong\<close> is object 3.
\<close>

definition url_delivered :: "nat player" where
  "url_delivered =
     commit toy_codec
       (getSongUrl_resolved 0 3 (Some ''https://cdn.example/1.mp3'')
          (commit toy_codec (playSong (latest session) 0 session)))"

section \<open>Properties\<close>

subsection \<open>Field lemmas\<close>

lemma invoke_fields [simp]:
  "heap (invoke c st) = heap st" "currentSong (invoke c st) = currentSong st"
  "isPlaying (invoke c st) = isPlaying st" "isLoading (invoke c st) = isLoading st"
  "currentTime (invoke c st) = currentTime st" "duration (invoke c st) = duration st"
  "queue (invoke c st) = queue st" "playMode (invoke c st) = playMode st"
  "audioRef (invoke c st) = audioRef st" "audioCtxRef (invoke c st) = audioCtxRef st"
  "href (invoke c st) = href st" "calls (invoke c st) = calls st @ [c]"
  "storage (invoke c st) = storage st" "changed (invoke c st) = changed st"
  "revision (invoke c st) = revision st" "nav_isPlaying (invoke c st) = nav_isPlaying st"
  "first_render (invoke c st) = first_render st"
  by (simp_all add: invoke_def)

lemma alloc_fields [simp]:
  "heap (alloc s st) = heap st @ [s]" "currentSong (alloc s st) = currentSong st"
  "isPlaying (alloc s st) = isPlaying st" "isLoading (alloc s st) = isLoading st"
  "currentTime (alloc s st) = currentTime st" "duration (alloc s st) = duration st"
  "queue (alloc s st) = queue st" "playMode (alloc s st) = playMode st"
  "audioRef (alloc s st) = audioRef st" "audioCtxRef (alloc s st) = audioCtxRef st"
  "href (alloc s st) = href st" "calls (alloc s st) = calls st"
  "storage (alloc s st) = storage st" "changed (alloc s st) = changed st"
  "revision (alloc s st) = revision st" "nav_isPlaying (alloc s st) = nav_isPlaying st"
  "first_render (alloc s st) = first_render st"
  by (simp_all add: alloc_def)

lemma setCurrentSong_fields [simp]:
  "heap (setCurrentSong v st) = heap st" "currentSong (setCurrentSong v st) = v"
  "isPlaying (setCurrentSong v st) = isPlaying st" "isLoading (setCurrentSong v st) = isLoading st"
  "currentTime (setCurrentSong v st) = currentTime st" "duration (setCurrentSong v st) = duration st"
  "queue (setCurrentSong v st) = queue st" "playMode (setCurrentSong v st) = playMode st"
  "audioRef (setCurrentSong v st) = audioRef st" "audioCtxRef (setCurrentSong v st) = audioCtxRef st"
  "href (setCurrentSong v st) = href st" "calls (setCurrentSong v st) = calls st"
  "storage (setCurrentSong v st) = storage st"
  "revision (setCurrentSong v st) = revision st" "nav_isPlaying (setCurrentSong v st) = nav_isPlaying st"
  "first_render (setCurrentSong v st) = first_render st"
  by (simp_all add: setCurrentSong_def)

lemma setQueue_new_fields [simp]:
  "heap (setQueue_new q st) = heap st" "currentSong (setQueue_new q st) = currentSong st"
  "isPlaying (setQueue_new q st) = isPlaying st" "isLoading (setQueue_new q st) = isLoading st"
  "currentTime (setQueue_new q st) = currentTime st" "duration (setQueue_new q st) = duration st"
  "queue (setQueue_new q st) = q" "playMode (setQueue_new q st) = playMode st"
  "audioRef (setQueue_new q st) = audioRef st" "audioCtxRef (setQueue_new q st) = audioCtxRef st"
  "href (setQueue_new q st) = href st" "calls (setQueue_new q st) = calls st"
  "storage (setQueue_new q st) = storage st"
  "changed (setQueue_new q st) = insert key_queue (changed st)"
  "revision (setQueue_new q st) = revision st" "nav_isPlaying (setQueue_new q st) = nav_isPlaying st"
  "first_render (setQueue_new q st) = first_render st"
  by (simp_all add: setQueue_new_def)

lemma resume_ctx_fields [simp]:
  "heap (resume_ctx st) = heap st" "currentSong (resume_ctx st) = currentSong st"
  "isPlaying (resume_ctx st) = isPlaying st" "isLoading (resume_ctx st) = isLoading st"
  "currentTime (resume_ctx st) = currentTime st" "duration (resume_ctx st) = duration st"
  "queue (resume_ctx st) = queue st" "playMode (resume_ctx st) = playMode st"
  "audioRef (resume_ctx st) = audioRef st" "audioCtxRef (resume_ctx st) = audioCtxRef st"
  "href (resume_ctx st) = href st"
  "storage (resume_ctx st) = storage st" "changed (resume_ctx st) = changed st"
  "revision (resume_ctx st) = revision st" "nav_isPlaying (resume_ctx st) = nav_isPlaying st"
  "first_render (resume_ctx st) = first_render st"
  by (simp_all add: resume_ctx_def)

lemma in_queue_iff: "in_queue st i \<longleftrightarrow> (\<exists>s \<in> set (queue st). id_of st s = i)"
  by (auto simp: in_queue_def find_None_iff)

lemma id_of_heap_cong: "heap st' = heap st \<Longrightarrow> id_of st' = id_of st"
  by (rule ext) (simp add: id_of_def deref_def)

lemma filter_key_absent: "\<forall>x \<in> set xs. f x \<noteq> v \<Longrightarrow> filter (\<lambda>x. f x = v) xs = []"
  by (induction xs) auto

lemma filter_key_distinct:
  "distinct (map f xs) \<Longrightarrow> \<exists>x \<in> set xs. f x = v \<Longrightarrow> length (filter (\<lambda>x. f x = v) xs) = 1"
proof (induction xs)
  case Nil
  then show ?case by simp
next
  case (Cons a xs)
  show ?case
  proof (cases "f a = v")
    case True
    with Cons.prems have "\<forall>x \<in> set xs. f x \<noteq> v" by (auto simp: image_iff)
    with True show ?thesis by (simp add: filter_key_absent)
  next
    case False
    with Cons show ?thesis by auto
  qed
qed


lemma render_fields [simp]:
  "r_currentSong (latest st) = currentSong st" "r_queue (latest st) = queue st"
  "r_playMode (latest st) = playMode st" "r_isPlaying (latest st) = isPlaying st"
  "r_currentSong (nav_render st) = currentSong st" "r_queue (nav_render st) = queue st"
  "r_playMode (nav_render st) = playMode st" "r_isPlaying (nav_render st) = nav_isPlaying st"
  by (simp_all add: latest_def nav_render_def)

lemma render_index_nav [simp]:
  "render_index st (nav_render st) = current_index st"
  "render_index st (latest st) = current_index st"
  by (simp_all add: render_index_def current_index_def)

lemmas fixture_defs =
  session_def playing_session_def looping_session_def shuffling_session_def track_def

subsection \<open>Adding to the queue\<close>

text \<open>
  Claim C8. \<open>addToQueue\<close> appends the track at the end when no entry of the queue has its
  identifier and leaves the queue as it is otherwise; adding the same track a second time
  changes nothing, and in a queue that is unique by identifier the track's identifier then
  occurs exactly once.
\<close>

theorem addToQueue_appends_once:
  "queue (addToQueue song st) =
     (if \<exists>s \<in> set (queue st). id_of st s = id_of st song then queue st else queue st @ [song])
   \<and> addToQueue song (addToQueue song st) = addToQueue song st
   \<and> (unique_ids st \<longrightarrow>
        length (filter (\<lambda>s. id_of st s = id_of st song)
                 (queue (addToQueue song (addToQueue song st)))) = 1)"
proof (intro conjI impI)
  have ids: "id_of (setQueue_new q st) = id_of st" for q
    by (rule id_of_heap_cong) simp
  show "queue (addToQueue song st) =
     (if \<exists>s \<in> set (queue st). id_of st s = id_of st song then queue st else queue st @ [song])"
    by (simp add: addToQueue_def in_queue_iff)
  show idem: "addToQueue song (addToQueue song st) = addToQueue song st"
    by (simp add: addToQueue_def in_queue_iff ids)
  assume "unique_ids st"
  then have d: "distinct (map (id_of st) (queue st))"
    by (simp add: unique_ids_def)
  show "length (filter (\<lambda>s. id_of st s = id_of st song)
                 (queue (addToQueue song (addToQueue song st)))) = 1"
  proof (cases "\<exists>s \<in> set (queue st). id_of st s = id_of st song")
    case True
    then show ?thesis using d by (simp add: idem addToQueue_def in_queue_iff filter_key_distinct)
  next
    case False
    then show ?thesis by (simp add: idem addToQueue_def in_queue_iff filter_key_absent)
  qed
qed

theorem addToQueue_appends_once_witness:
  "unique_ids session \<and>
   length (filter (\<lambda>s. id_of session s = id_of session 1)
            (queue (addToQueue 1 (addToQueue 1 session)))) = 1"
proof -
  have u: "unique_ids session"
    by (simp add: unique_ids_def id_of_def deref_def fixture_defs)
  with addToQueue_appends_once [of 1 session] show ?thesis
    by blast
qed

subsection \<open>Navigation without a position\<close>

text \<open>
  Claim C3, as amended. With an empty queue, or with no current track, \<open>playNext\<close> and
  \<open>playPrev\<close> return the session as it is: no field changes and no call is issued. The
  guard of the source tests \<open>queue.length === 0 || !currentSong\<close> and nothing else.
\<close>

theorem next_prev_noop:
  "queue st = [] \<or> currentSong st = None \<Longrightarrow>
     playNext (nav_render st) force draws st = Some st \<and> playPrev (nav_render st) draw st = st"
  by (auto simp: playNext_def playPrev_def)

theorem next_prev_noop_witness:
  "(queue (clearQueue session) = [] \<or> currentSong (clearQueue session) = None)
   \<and> playNext (nav_render (clearQueue session)) True [] (clearQueue session)
        = Some (clearQueue session)
   \<and> playPrev (nav_render (clearQueue session)) (0, 53) (clearQueue session)
        = clearQueue session"
  using next_prev_noop [of "clearQueue session" True "[]" "(0, 53)"]
  by (simp add: clearQueue_def)

text \<open>
  A current track whose identifier is missing from a non-empty queue is not covered by the
  guard: \<open>findIndex\<close> returns \<open>-1\<close>, and \<open>playNext\<close> plays the first entry. Here
  \<open>T2\<close> is current and has been removed from the queue \<open>[T1, T2, T3]\<close>.
\<close>

theorem next_prev_not_found_counterexample:
  "currentSong (removeFromQueue 2 session) = Some 1
   \<and> queue (removeFromQueue 2 session) = [0, 2]
   \<and> \<not> in_queue (removeFromQueue 2 session) (id_of (removeFromQueue 2 session) 1)
   \<and> map_option calls
        (playNext (nav_render (removeFromQueue 2 session)) True [] (removeFromQueue 2 session))
        = Some [GetSongUrl 1 ''netease'']
   \<and> map_option currentSong
        (playNext (nav_render (removeFromQueue 2 session)) True [] (removeFromQueue 2 session))
        = Some (Some 3)
   \<and> calls (playPrev (nav_render (removeFromQueue 2 session)) (0, 53)
               (removeFromQueue 2 session))
        = [GetSongUrl 1 ''netease'']"
  by (simp add: removeFromQueue_def in_queue_iff id_of_def deref_def fixture_defs
      playNext_def playPrev_def current_index_def js_rem_def js_nth_def playSong_at_def
      playSong.simps same_id_def src_loaded_def playSong_begin_def Let_def fullSong_of_def)

subsection \<open>Seeking\<close>

text \<open>
  Claim C4, as amended. \<open>seek(t)\<close> assigns \<open>t\<close> to the position of the audio element and
  stores the same \<open>t\<close> as the elapsed time of the session, unclamped; the stored value
  lies between 0 and the duration whenever \<open>t\<close> does.
\<close>

theorem seek_stores_time:
  "audioRef st \<noteq> None \<Longrightarrow>
     currentTime (seek t st) = t
     \<and> duration (seek t st) = duration st
     \<and> calls (seek t st) = calls st @ [AudioSetCurrentTime t]
     \<and> (0 \<le> t \<and> t \<le> duration st \<longrightarrow>
          0 \<le> currentTime (seek t st) \<and> currentTime (seek t st) \<le> duration (seek t st))"
  by (simp add: seek_def)

theorem seek_stores_time_witness:
  "audioRef playing_session \<noteq> None \<and> 0 \<le> (60::real) \<and> 60 \<le> duration playing_session
   \<and> currentTime (seek 60 playing_session) = 60
   \<and> currentTime (seek 60 playing_session) \<le> duration (seek 60 playing_session)"
  using seek_stores_time [of playing_session 60]
  by (simp add: fixture_defs)

text \<open>
  On a track of 200 seconds \<open>seek(-5)\<close> stores \<open>-5\<close> and \<open>seek(500)\<close> stores \<open>500\<close>.
\<close>

theorem seek_clamp_counterexample:
  "duration playing_session = 200
   \<and> currentTime (seek (- 5) playing_session) = - 5
   \<and> currentTime (seek 500 playing_session) = 500"
  by (simp add: seek_def fixture_defs)

subsection \<open>Rounding to a double\<close>

lemma bit_length_0 [simp]: "bit_length 0 = 0"
  by (simp add: bit_length.simps)






subsection \<open>Lemmas on \<open>playSong\<close>\<close>

lemma deref_alloc_old: "r < length (heap st) \<Longrightarrow> deref (alloc s st) r = deref st r"
  by (simp add: deref_def nth_append)

lemma deref_alloc_new: "deref (alloc s st) (length (heap st)) = s"
  by (simp add: deref_def)

lemma playSong_begin_heap: "heap (playSong_begin song st) = heap st @ [deref st song]"
  by (simp add: playSong_begin_def Let_def deref_def)

lemma playSong_begin_currentSong:
  "currentSong (playSong_begin song st) = Some (length (heap st))"
  by (simp add: playSong_begin_def Let_def fullSong_of_def)

lemma playSong_begin_same:
  "isLoading (playSong_begin song st)"
  "isPlaying (playSong_begin song st) = isPlaying st"
  "currentTime (playSong_begin song st) = currentTime st"
  "duration (playSong_begin song st) = duration st"
  "playMode (playSong_begin song st) = playMode st"
  "audioRef (playSong_begin song st) = audioRef st"
  "audioCtxRef (playSong_begin song st) = audioCtxRef st"
  "href (playSong_begin song st) = href st"
  "storage (playSong_begin song st) = storage st"
  "revision (playSong_begin song st) = revision st"
  "nav_isPlaying (playSong_begin song st) = nav_isPlaying st"
  "first_render (playSong_begin song st) = first_render st"
  by (simp_all add: playSong_begin_def Let_def)

lemma id_of_extend:
  assumes "heap st' = heap st @ ys" and "r < length (heap st)"
  shows "id_of st' r = id_of st r"
  using assms by (simp add: id_of_def deref_def nth_append)

lemma in_queue_extend:
  assumes "heap st' = heap st @ ys" and "queue st' = queue st"
    and "\<forall>r \<in> set (queue st). r < length (heap st)"
  shows "in_queue st' i = in_queue st i"
  using assms by (auto simp: in_queue_iff id_of_extend)

lemma playSong_begin_queue:
  assumes "\<forall>r \<in> set (queue st). r < length (heap st)" and "song < length (heap st)"
  shows "queue (playSong_begin song st) =
     (if in_queue st (id_of st song) then queue st else queue st @ [length (heap st)])"
proof -
  let ?st3 = "setCurrentSong (Some (fullSong_of (st\<lparr>isLoading := True\<rparr>)))
               (alloc (deref (st\<lparr>isLoading := True\<rparr>) song) (st\<lparr>isLoading := True\<rparr>))"
  have h: "heap ?st3 = heap st @ [deref st song]" by (simp add: deref_def)
  have q: "queue ?st3 = queue st" by simp
  have i: "id_of ?st3 song = id_of st song" using h assms(2) by (rule id_of_extend)
  have "in_queue ?st3 (id_of ?st3 song) = in_queue st (id_of st song)"
    using in_queue_extend [OF h q assms(1)] i by simp
  then show ?thesis
    by (simp add: playSong_begin_def Let_def fullSong_of_def)
qed

lemma playSong_begin_calls:
  assumes "song < length (heap st)"
  shows "calls (playSong_begin song st) =
           calls st @ [GetSongUrl (id_of st song) (source (deref st song))]"
  using assms
  by (simp add: playSong_begin_def Let_def id_of_def deref_def nth_append)

lemma playSong_begin_current_id:
  "id_of (playSong_begin s st) (length (heap st)) = id_of st s"
  by (simp add: id_of_def deref_def playSong_begin_heap)

lemma toggle_now_same:
  "heap (toggle_now v st) = heap st" "currentSong (toggle_now v st) = currentSong st"
  "queue (toggle_now v st) = queue st" "audioRef (toggle_now v st) = audioRef st"
  "isLoading (toggle_now v st) = isLoading st" "playMode (toggle_now v st) = playMode st"
  "isPlaying (toggle_now v st) = (\<not> r_isPlaying v)"
  "currentTime (toggle_now v st) = currentTime st"
  "revision (toggle_now v st) = revision st"
  "nav_isPlaying (toggle_now v st) = nav_isPlaying st"
  "first_render (toggle_now v st) = first_render st"
  "changed (toggle_now v st) = changed st"
  by (simp_all add: toggle_now_def Let_def)

lemma playSong_cases:
  "playSong v song st = st \<or> playSong v song st = toggle_now v st
     \<or> playSong v song st = playSong_begin song st"
  "togglePlay v st = st \<or> togglePlay v st = toggle_now v st
     \<or> (r_currentSong v \<noteq> None \<and> togglePlay v st = playSong_begin (the (r_currentSong v)) st)"
  by (auto simp: playSong.simps togglePlay.simps)

lemma playSong_other_id:
  assumes "audioRef st \<noteq> None" and "r_currentSong v = Some c"
    and "id_of st s \<noteq> id_of st c"
  shows "playSong v s st = playSong_begin s st"
  using assms by (auto simp: playSong.simps same_id_def)

lemma getSongUrl_resolved_plays:
  assumes "audioRef st = Some a" and "truthy u"
  shows "audioRef (getSongUrl_resolved song fullSong u st) = Some (a\<lparr>src := the u\<rparr>)"
    and "last (calls (getSongUrl_resolved song fullSong u st)) = AudioPlay"
    and "currentSong (getSongUrl_resolved song fullSong u st) = currentSong st"
    and "queue (getSongUrl_resolved song fullSong u st) = queue st"
  using assms by (simp_all add: getSongUrl_resolved_def Let_def)

subsection \<open>Playing the current track again\<close>

text \<open>
  In the later revision the claim holds: when the track passed to \<open>playSong\<close> has the
  identifier of the current track and the audio element has a source loaded, \<open>playSong\<close>
  is \<open>togglePlay\<close>, and the current track, the loaded source and the loading flag stay;
  when no source is loaded, the call is a fresh \<open>playSong\<close>, the one made with no current
  track: it sets the loading flag and issues \<open>getSongUrl\<close>, and the continuation calls
  \<open>play()\<close> once a URL has arrived.
\<close>

lemma playSong_same_id_later:
  assumes "revision st = Later" and "audioRef st \<noteq> None" and "r_currentSong v = Some c"
    and "id_of st song = id_of st c"
  shows "(src_loaded st \<longrightarrow>
            playSong v song st = togglePlay v st
          \<and> togglePlay v st = toggle_now v st
          \<and> currentSong (playSong v song st) = currentSong st
          \<and> audioRef (playSong v song st) = audioRef st
          \<and> isLoading (playSong v song st) = isLoading st
          \<and> isPlaying (playSong v song st) = (\<not> r_isPlaying v))
       \<and> (\<not> src_loaded st \<longrightarrow> song < length (heap st) \<longrightarrow>
            playSong v song st = playSong (v\<lparr>r_currentSong := None\<rparr>) song st
          \<and> isLoading (playSong v song st)
          \<and> calls (playSong v song st) =
              calls st @ [GetSongUrl (id_of st song) (source (deref st song))]
          \<and> (\<forall>u. truthy u \<longrightarrow>
                last (calls (getSongUrl_resolved song (fullSong_of st) u (playSong v song st)))
                  = AudioPlay))"
proof (intro conjI impI allI)
  have same: "same_id st (r_currentSong v) song"
    using assms by (simp add: same_id_def)
  {
    assume l: "src_loaded st"
    show 1: "playSong v song st = togglePlay v st"
      using assms(2) same l by (auto simp: playSong.simps)
    show 2: "togglePlay v st = toggle_now v st"
      using assms(2,3) l by (auto simp: togglePlay.simps)
    show "currentSong (playSong v song st) = currentSong st"
      "audioRef (playSong v song st) = audioRef st"
      "isLoading (playSong v song st) = isLoading st"
      "isPlaying (playSong v song st) = (\<not> r_isPlaying v)"
      by (simp_all add: 1 2 toggle_now_same)
  }
  {
    assume n: "\<not> src_loaded st" and v: "song < length (heap st)"
    have b: "playSong v song st = playSong_begin song st"
      using assms(1,2) n by (auto simp: playSong.simps)
    have "playSong (v\<lparr>r_currentSong := None\<rparr>) song st = playSong_begin song st"
      using assms(2) by (auto simp: playSong.simps same_id_def)
    then show "playSong v song st = playSong (v\<lparr>r_currentSong := None\<rparr>) song st"
      using b by simp
    show "isLoading (playSong v song st)"
      by (simp add: b playSong_begin_same)
    show "calls (playSong v song st) =
              calls st @ [GetSongUrl (id_of st song) (source (deref st song))]"
      using v by (simp add: b playSong_begin_calls)
    fix u :: "string option"
    assume t: "truthy u"
    obtain a where a: "audioRef (playSong v song st) = Some a"
      using assms(2) by (auto simp: b playSong_begin_same)
    show "last (calls (getSongUrl_resolved song (fullSong_of st) u (playSong v song st)))
            = AudioPlay"
      using a t by (rule getSongUrl_resolved_plays(2))
  }
qed

text \<open>
  The earlier revision toggles on the same identifier whether or not a source is loaded.
\<close>

lemma playSong_same_id_earlier:
  assumes "revision st = Earlier" and "audioRef st \<noteq> None" and "r_currentSong v = Some c"
    and "id_of st song = id_of st c"
  shows "playSong v song st = toggle_now v st"
  using assms by (auto simp: playSong.simps togglePlay.simps same_id_def)

text \<open>
  Claim C5 does not hold of the earlier revision, \<open>src/contexts/PlayerContext.tsx\<close>. Its
  \<open>playSong\<close> calls \<open>togglePlay\<close> on the same identifier without looking at the source
  of the audio element, which the later revision does. Here \<open>T2\<close> was played and its
  lookup delivered no URL, so \<open>T2\<close> is current and nothing is loaded. \<open>playSong(T2)\<close>
  is then \<open>togglePlay()\<close>: it calls \<open>play()\<close> on the empty element and sets the play
  flag; it neither sets the loading flag nor issues \<open>getSongUrl\<close>, and the current track
  is the object it was. After the same events the later revision starts a fresh
  \<open>playSong\<close>, with a new lookup and a new copy of the track.
\<close>

theorem playSong_earlier_toggles_without_source:
  "map_option revision (stalled Earlier) = Some Earlier
   \<and> map_option currentSong (stalled Earlier) = Some (Some 1)
   \<and> map_option queue (stalled Earlier) = Some [1]
   \<and> map_option audioRef (stalled Earlier) = Some (Some \<lparr>src = []\<rparr>)
   \<and> map_option isPlaying (stalled Earlier) = Some False
   \<and> map_option isLoading (stalled Earlier) = Some False
   \<and> map_option calls (stalled Earlier)
        = Some [GetSongUrl 2 ''netease'', GetSongInfo 2 ''netease'']
   \<and> Option.bind (stalled Earlier) (handle (PlaySong 0))
        = Option.bind (stalled Earlier) (handle TogglePlay)
   \<and> map_option calls (Option.bind (stalled Earlier) (handle (PlaySong 0)))
        = Some [GetSongUrl 2 ''netease'', GetSongInfo 2 ''netease'', AudioPlay]
   \<and> map_option isPlaying (Option.bind (stalled Earlier) (handle (PlaySong 0))) = Some True
   \<and> map_option isLoading (Option.bind (stalled Earlier) (handle (PlaySong 0))) = Some False
   \<and> map_option currentSong (Option.bind (stalled Earlier) (handle (PlaySong 0)))
        = Some (Some 1)
   \<and> map_option revision (stalled Later) = Some Later
   \<and> map_option currentSong (stalled Later) = Some (Some 1)
   \<and> map_option audioRef (stalled Later) = Some (Some \<lparr>src = []\<rparr>)
   \<and> map_option calls (Option.bind (stalled Later) (handle (PlaySong 0)))
        = Some [GetSongUrl 2 ''netease'', GetSongInfo 2 ''netease'', GetSongUrl 2 ''netease'']
   \<and> map_option isLoading (Option.bind (stalled Later) (handle (PlaySong 0))) = Some True
   \<and> map_option currentSong (Option.bind (stalled Later) (handle (PlaySong 0)))
        = Some (Some 2)"
proof -
  have a: "map_option revision (stalled Earlier) = Some Earlier"
    "map_option currentSong (stalled Earlier) = Some (Some 1)"
    "map_option queue (stalled Earlier) = Some [1]"
    "map_option audioRef (stalled Earlier) = Some (Some \<lparr>src = []\<rparr>)"
    "map_option isPlaying (stalled Earlier) = Some False"
    "map_option isLoading (stalled Earlier) = Some False"
    "map_option calls (stalled Earlier)
        = Some [GetSongUrl 2 ''netease'', GetSongInfo 2 ''netease'']"
    "map_option calls (Option.bind (stalled Earlier) (handle (PlaySong 0)))
        = Some [GetSongUrl 2 ''netease'', GetSongInfo 2 ''netease'', AudioPlay]"
    "map_option isPlaying (Option.bind (stalled Earlier) (handle (PlaySong 0))) = Some True"
    "map_option isLoading (Option.bind (stalled Earlier) (handle (PlaySong 0))) = Some False"
    "map_option currentSong (Option.bind (stalled Earlier) (handle (PlaySong 0)))
        = Some (Some 1)"
    by code_simp+
  have b: "map_option revision (stalled Later) = Some Later"
    "map_option currentSong (stalled Later) = Some (Some 1)"
    "map_option audioRef (stalled Later) = Some (Some \<lparr>src = []\<rparr>)"
    "map_option calls (Option.bind (stalled Later) (handle (PlaySong 0)))
        = Some [GetSongUrl 2 ''netease'', GetSongInfo 2 ''netease'', GetSongUrl 2 ''netease'']"
    "map_option isLoading (Option.bind (stalled Later) (handle (PlaySong 0))) = Some True"
    "map_option currentSong (Option.bind (stalled Later) (handle (PlaySong 0)))
        = Some (Some 2)"
    by code_simp+
  have i: "map_option (\<lambda>st. id_of st 0 = id_of st 1) (stalled Earlier) = Some True"
    by code_simp
  from a(1,2,4) i obtain st where st: "stalled Earlier = Some st"
    and r: "revision st = Earlier" and c: "currentSong st = Some 1"
    and d: "audioRef st \<noteq> None" and e: "id_of st 0 = id_of st 1"
    by auto
  have c': "r_currentSong (latest st) = Some 1" using c by simp
  have "playSong (latest st) 0 st = toggle_now (latest st) st"
    using r d c' e by (rule playSong_same_id_earlier)
  moreover have "togglePlay (latest st) st = toggle_now (latest st) st"
    using r d c' by (auto simp: togglePlay.simps)
  ultimately have t: "Option.bind (stalled Earlier) (handle (PlaySong 0))
        = Option.bind (stalled Earlier) (handle TogglePlay)"
    by (simp add: st)
  show ?thesis
    using a b t by simp
qed

subsection \<open>Metadata enrichment\<close>

lemma getSongInfo_resolved_same:
  "isPlaying (getSongInfo_resolved song fullSong info st) = isPlaying st"
  "isLoading (getSongInfo_resolved song fullSong info st) = isLoading st"
  "currentTime (getSongInfo_resolved song fullSong info st) = currentTime st"
  "duration (getSongInfo_resolved song fullSong info st) = duration st"
  "playMode (getSongInfo_resolved song fullSong info st) = playMode st"
  "audioRef (getSongInfo_resolved song fullSong info st) = audioRef st"
  "calls (getSongInfo_resolved song fullSong info st) = calls st"
  "revision (getSongInfo_resolved song fullSong info st) = revision st"
  "nav_isPlaying (getSongInfo_resolved song fullSong info st) = nav_isPlaying st"
  "first_render (getSongInfo_resolved song fullSong info st) = first_render st"
  by (simp_all add: getSongInfo_resolved_def Let_def split: option.splits)

lemma same_id_extend:
  assumes "heap st' = heap st @ ys" and "currentSong st' = currentSong st"
    and "well_formed st" and "song < length (heap st)"
  shows "same_id st' (currentSong st') song = same_id st (currentSong st) song"
  using assms
  by (auto simp: same_id_def well_formed_def id_of_extend split: option.splits)

lemma getSongInfo_resolved_update:
  assumes "well_formed st" and "song < length (heap st)" and "truthy (info_pic i)"
  shows "heap (getSongInfo_resolved song fullSong (Some i) st) =
           heap st @ [(deref st fullSong)\<lparr>pic := info_pic i\<rparr>]"
    and "currentSong (getSongInfo_resolved song fullSong (Some i) st) =
           (if same_id st (currentSong st) song then Some (length (heap st))
            else currentSong st)"
    and "queue (getSongInfo_resolved song fullSong (Some i) st) =
           map (\<lambda>s. if id_of st s = id_of st song then length (heap st) else s) (queue st)"
proof -
  let ?st1 = "alloc ((deref st fullSong)\<lparr>pic := info_pic i\<rparr>) st"
  let ?st2 = "if same_id ?st1 (currentSong ?st1) song
              then setCurrentSong (Some (fullSong_of st)) ?st1 else ?st1"
  have h1: "heap ?st1 = heap st @ [(deref st fullSong)\<lparr>pic := info_pic i\<rparr>]" by simp
  have s: "same_id ?st1 (currentSong ?st1) song = same_id st (currentSong st) song"
    using h1 _ assms(1,2) by (rule same_id_extend) simp
  have h2: "heap ?st2 = heap st @ [(deref st fullSong)\<lparr>pic := info_pic i\<rparr>]" by simp
  have q2: "queue ?st2 = queue st" by simp
  have r: "getSongInfo_resolved song fullSong (Some i) st =
      setQueue_new (map (\<lambda>s. if id_of ?st2 s = id_of ?st2 song then fullSong_of st else s)
                     (queue ?st2)) ?st2"
    using assms(3) by (simp add: getSongInfo_resolved_def Let_def)
  show "heap (getSongInfo_resolved song fullSong (Some i) st) =
           heap st @ [(deref st fullSong)\<lparr>pic := info_pic i\<rparr>]"
    unfolding r by simp
  show "currentSong (getSongInfo_resolved song fullSong (Some i) st) =
           (if same_id st (currentSong st) song then Some (length (heap st))
            else currentSong st)"
    unfolding r using s by (simp add: fullSong_of_def)
  have "id_of ?st2 song = id_of st song"
    using h2 assms(2) by (rule id_of_extend)
  moreover have "\<forall>x \<in> set (queue st). id_of ?st2 x = id_of st x"
    using assms(1) id_of_extend [OF h2] by (simp add: well_formed_def)
  ultimately have "map (\<lambda>s. if id_of ?st2 s = id_of ?st2 song then fullSong_of st else s) (queue st)
      = map (\<lambda>s. if id_of st s = id_of st song then length (heap st) else s) (queue st)"
    by (simp add: fullSong_of_def)
  then show "queue (getSongInfo_resolved song fullSong (Some i) st) =
           map (\<lambda>s. if id_of st s = id_of st song then length (heap st) else s) (queue st)"
    unfolding r using q2 by simp
qed

lemma getSongUrl_resolved_calls:
  "\<exists>rest. calls (getSongUrl_resolved song fullSong u st) =
      calls st
      @ (if truthy (pic (deref st song)) then []
         else [GetSongInfo (id_of st song) (source (deref st song))])
      @ rest
    \<and> set rest \<subseteq> {AudioLoad, CtxResume, AudioPlay}"
  by (auto simp: getSongUrl_resolved_def Let_def resume_ctx_def split: option.splits)

text \<open>
  Claim C7. The callback of the metadata lookup, when the lookup delivers artwork, builds
  one new object from \<open>fullSong\<close> with that artwork; it replaces the current track by this
  object only if the current track still has the identifier the lookup was issued for, and
  it replaces every queue entry with that identifier, whichever track is current. Nothing
  else in the session changes. A lookup that delivers nothing, delivers no artwork, or is
  rejected leaves the session as it is. The lookup is issued by the continuation of
  \<open>playSong\<close>, exactly when the track has no artwork. This holds of both revisions.
\<close>

theorem metadata_lookup_outcome:
  assumes "well_formed st" and "song < length (heap st)"
  shows "(truthy (info_pic i) \<longrightarrow>
            heap (getSongInfo_resolved song fullSong (Some i) st) =
              heap st @ [(deref st fullSong)\<lparr>pic := info_pic i\<rparr>]
          \<and> currentSong (getSongInfo_resolved song fullSong (Some i) st) =
              (if same_id st (currentSong st) song then Some (length (heap st))
               else currentSong st)
          \<and> queue (getSongInfo_resolved song fullSong (Some i) st) =
              map (\<lambda>s. if id_of st s = id_of st song then length (heap st) else s) (queue st)
          \<and> isPlaying (getSongInfo_resolved song fullSong (Some i) st) = isPlaying st
          \<and> isLoading (getSongInfo_resolved song fullSong (Some i) st) = isLoading st
          \<and> playMode (getSongInfo_resolved song fullSong (Some i) st) = playMode st
          \<and> audioRef (getSongInfo_resolved song fullSong (Some i) st) = audioRef st
          \<and> calls (getSongInfo_resolved song fullSong (Some i) st) = calls st)
       \<and> (\<not> truthy (info_pic i) \<longrightarrow> getSongInfo_resolved song fullSong (Some i) st = st)
       \<and> getSongInfo_resolved song fullSong None st = st
       \<and> getSongInfo_rejected st = st
       \<and> (\<exists>rest. calls (getSongUrl_resolved song fullSong u st) =
             calls st
             @ (if truthy (pic (deref st song)) then []
                else [GetSongInfo (id_of st song) (source (deref st song))])
             @ rest
           \<and> set rest \<subseteq> {AudioLoad, CtxResume, AudioPlay})"
proof (intro conjI impI)
  assume t: "truthy (info_pic i)"
  show "heap (getSongInfo_resolved song fullSong (Some i) st) =
              heap st @ [(deref st fullSong)\<lparr>pic := info_pic i\<rparr>]"
    using assms t by (rule getSongInfo_resolved_update(1))
  show "currentSong (getSongInfo_resolved song fullSong (Some i) st) =
              (if same_id st (currentSong st) song then Some (length (heap st))
               else currentSong st)"
    using assms t by (rule getSongInfo_resolved_update(2))
  show "queue (getSongInfo_resolved song fullSong (Some i) st) =
              map (\<lambda>s. if id_of st s = id_of st song then length (heap st) else s) (queue st)"
    using assms t by (rule getSongInfo_resolved_update(3))
next
  assume "\<not> truthy (info_pic i)"
  then show "getSongInfo_resolved song fullSong (Some i) st = st"
    by (simp add: getSongInfo_resolved_def)
next
  show "getSongInfo_resolved song fullSong None st = st"
    by (simp add: getSongInfo_resolved_def)
  show "getSongInfo_rejected st = st"
    by (simp add: getSongInfo_rejected_def)
  show "\<exists>rest. calls (getSongUrl_resolved song fullSong u st) =
             calls st
             @ (if truthy (pic (deref st song)) then []
                else [GetSongInfo (id_of st song) (source (deref st song))])
             @ rest
           \<and> set rest \<subseteq> {AudioLoad, CtxResume, AudioPlay}"
    by (rule getSongUrl_resolved_calls)
qed (simp_all add: getSongInfo_resolved_same)

theorem metadata_lookup_outcome_witness:
  "well_formed overtaken_session
   \<and> 0 < length (heap overtaken_session)
   \<and> truthy (info_pic \<lparr>info_pic = Some ''cover.jpg''\<rparr>)
   \<and> \<not> same_id overtaken_session (currentSong overtaken_session) 0
   \<and> currentSong (getSongInfo_resolved 0 3 (Some \<lparr>info_pic = Some ''cover.jpg''\<rparr>)
        overtaken_session) = Some 4
   \<and> queue (getSongInfo_resolved 0 3 (Some \<lparr>info_pic = Some ''cover.jpg''\<rparr>)
        overtaken_session) = [5, 1, 2]"
proof -
  let ?st = "overtaken_session"
  have f: "well_formed ?st" "0 < length (heap ?st)"
    "truthy (info_pic \<lparr>info_pic = Some ''cover.jpg''\<rparr>)"
    "\<not> same_id ?st (currentSong ?st) 0"
    by code_simp+
  have e: "currentSong ?st = Some 4"
    "map (\<lambda>s. if id_of ?st s = id_of ?st 0 then length (heap ?st) else s) (queue ?st)
       = [5, 1, 2]"
    by code_simp+
  show ?thesis
    using metadata_lookup_outcome [of ?st 0 "\<lparr>info_pic = Some ''cover.jpg''\<rparr>" 3] f e
    by simp
qed

subsection \<open>A superseded URL lookup\<close>

text \<open>
  Claim C1 does not hold of the source, in either revision. The continuation of
  \<open>playSong\<close> after \<open>await getSongUrl\<close> never compares \<open>song.id\<close> with the current
  track, although the metadata callback a few lines above it does. Here \<open>T4\<close>, not yet
  queued, is played (its copy is object 4 and joins the queue), then \<open>T3\<close> is played,
  then the lookup for \<open>T4\<close> delivers its URL: the current track stays \<open>T3\<close>, but the
  audio element is given the URL of \<open>T4\<close>, \<open>load()\<close> and \<open>play()\<close> are called, and the
  queue entry of \<open>T4\<close> has its \<open>url\<close> written.
\<close>

theorem stale_url_result_reaches_device:
  "id_of superseded_session (the (currentSong superseded_session)) = 3
   \<and> id_of (getSongUrl_resolved 3 4 (Some ''https://cdn.example/4.mp3'') superseded_session)
        (the (currentSong (getSongUrl_resolved 3 4 (Some ''https://cdn.example/4.mp3'')
             superseded_session))) = 3
   \<and> audioRef (getSongUrl_resolved 3 4 (Some ''https://cdn.example/4.mp3'')
             superseded_session)
        = Some \<lparr>src = ''https://cdn.example/4.mp3''\<rparr>
   \<and> calls (getSongUrl_resolved 3 4 (Some ''https://cdn.example/4.mp3'') superseded_session)
        = [GetSongUrl 4 ''netease'', GetSongUrl 3 ''netease'',
           GetSongInfo 4 ''netease'', AudioLoad, AudioPlay]
   \<and> queue (getSongUrl_resolved 3 4 (Some ''https://cdn.example/4.mp3'') superseded_session)
        = [0, 1, 2, 4]
   \<and> url (deref superseded_session 4) = None
   \<and> url (deref (getSongUrl_resolved 3 4 (Some ''https://cdn.example/4.mp3'')
             superseded_session) 4)
        = Some ''https://cdn.example/4.mp3''
   \<and> calls (getSongUrl_resolved 3 4 (Some ''https://cdn.example/4.mp3'')
             (superseded_session\<lparr>revision := Earlier\<rparr>))
        = [GetSongUrl 4 ''netease'', GetSongUrl 3 ''netease'',
           GetSongInfo 4 ''netease'', AudioLoad, AudioPlay]
   \<and> audioRef (getSongUrl_resolved 3 4 (Some ''https://cdn.example/4.mp3'')
             (superseded_session\<lparr>revision := Earlier\<rparr>))
        = Some \<lparr>src = ''https://cdn.example/4.mp3''\<rparr>"
  by code_simp

subsection \<open>Evaluating and bounding the random index\<close>







subsection \<open>Lemmas on indices and on the shuffle loop\<close>

lemma findIndex_ge: "- 1 \<le> findIndex P xs"
  by (induction xs) (auto simp: Let_def)

lemma findIndex_lt: "findIndex P xs < int (length xs)"
  by (induction xs) (auto simp: Let_def)

lemma findIndex_neg_iff: "findIndex P xs < 0 \<longleftrightarrow> (\<forall>x \<in> set xs. \<not> P x)"
  by (induction xs) (auto simp: Let_def)

lemma findIndex_holds: "0 \<le> findIndex P xs \<Longrightarrow> P (xs ! nat (findIndex P xs))"
proof (induction xs)
  case Nil
  then show ?case by simp
next
  case (Cons a xs)
  show ?case
  proof (cases "P a")
    case True
    then show ?thesis by simp
  next
    case False
    with Cons.prems have nn: "0 \<le> findIndex P xs"
      by (auto simp: Let_def split: if_splits)
    with Cons.IH have "P (xs ! nat (findIndex P xs))" by simp
    moreover have "nat (findIndex P xs + 1) = Suc (nat (findIndex P xs))"
      using nn by simp
    ultimately show ?thesis
      using False nn by (simp add: Let_def)
  qed
qed

lemma findIndex_distinct:
  "distinct (map f xs) \<Longrightarrow> i < length xs \<Longrightarrow> findIndex (\<lambda>x. f x = f (xs ! i)) xs = int i"
proof (induction xs arbitrary: i)
  case Nil
  then show ?case by simp
next
  case (Cons a xs)
  show ?case
  proof (cases i)
    case 0
    then show ?thesis by simp
  next
    case (Suc j)
    with Cons.prems have j: "j < length xs" and d: "distinct (map f xs)"
      and ne: "f a \<noteq> f (xs ! j)"
      by (auto simp: image_iff)
    from Cons.IH [OF d j] have "findIndex (\<lambda>x. f x = f (xs ! j)) xs = int j" .
    with ne Suc show ?thesis by (simp add: Let_def)
  qed
qed




subsection \<open>Shuffle\<close>

lemma current_index_unique:
  assumes "unique_ids st" and "currentSong st = Some c" and "i < length (queue st)"
    and "id_of st (queue st ! i) = id_of st c"
  shows "current_index st = int i"
proof -
  have "findIndex (\<lambda>x. id_of st x = id_of st (queue st ! i)) (queue st) = int i"
    using assms(1,3) unfolding unique_ids_def by (rule findIndex_distinct)
  then show ?thesis
    using assms(2,4) by (simp add: current_index_def)
qed






subsection \<open>What a render keeps\<close>

lemma commit_same:
  "heap (commit j st) = heap st" "currentSong (commit j st) = currentSong st"
  "queue (commit j st) = queue st" "playMode (commit j st) = playMode st"
  "audioRef (commit j st) = audioRef st" "isPlaying (commit j st) = isPlaying st"
  "isLoading (commit j st) = isLoading st" "calls (commit j st) = calls st"
  "currentTime (commit j st) = currentTime st" "duration (commit j st) = duration st"
  "changed (commit j st) = {}" "revision (commit j st) = revision st"
  "first_render (commit j st) = first_render st"
  "nav_isPlaying (commit j st) = (if changed st = {} then nav_isPlaying st else isPlaying st)"
  by (simp_all add: commit_def persist_queue_def persist_current_song_def
      persist_play_mode_def Let_def)

lemma id_of_commit: "id_of (commit j st) = id_of st"
  by (rule id_of_heap_cong) (simp add: commit_same)

lemma well_formed_commit: "well_formed (commit j st) = well_formed st"
  by (simp add: well_formed_def commit_same split: option.splits)

lemma unique_ids_commit: "unique_ids (commit j st) = unique_ids st"
  by (simp add: unique_ids_def commit_same id_of_commit)

lemma current_index_commit: "current_index (commit j st) = current_index st"
  by (simp add: current_index_def commit_same id_of_commit)

subsection \<open>Sequential navigation\<close>

lemma findIndex_cong:
  "(\<And>x. x \<in> set xs \<Longrightarrow> P x = Q x) \<Longrightarrow> findIndex P xs = findIndex Q xs"
  by (induction xs) (auto simp: Let_def)

lemma js_rem_nonneg: "0 \<le> a \<Longrightarrow> 0 < b \<Longrightarrow> js_rem a b = a mod b"
  by (cases "a = 0") (simp_all add: js_rem_def)

lemma succ_mod_differs:
  fixes k n :: int
  assumes "0 \<le> k" and "k < n" and "1 < n"
  shows "(k + 1) mod n \<noteq> k"
proof (cases "k + 1 < n")
  case True
  then show ?thesis using assms by simp
next
  case False
  with assms have "k + 1 = n" by simp
  then show ?thesis using assms by simp
qed

lemma current_index_after:
  assumes "queue st' = queue st" and "currentSong st' = Some f"
    and "id_of st' f = id_of st (queue st ! i)"
    and "\<And>x. x \<in> set (queue st) \<Longrightarrow> id_of st' x = id_of st x"
    and "unique_ids st" and "i < length (queue st)"
  shows "current_index st' = int i"
proof -
  have "current_index st' = findIndex (\<lambda>x. id_of st' x = id_of st (queue st ! i)) (queue st)"
    using assms(1,2,3) by (simp add: current_index_def)
  also have "\<dots> = findIndex (\<lambda>x. id_of st x = id_of st (queue st ! i)) (queue st)"
    by (rule findIndex_cong) (simp add: assms(4))
  also have "\<dots> = int i"
    using assms(5,6) unfolding unique_ids_def by (rule findIndex_distinct)
  finally show ?thesis .
qed

lemma playNext_sequential_step:
  assumes wf: "well_formed st" and u: "unique_ids st" and a: "audioRef st \<noteq> None"
    and m: "playMode st \<noteq> Shuffle" and n: "1 < length (queue st)"
    and c: "currentSong st = Some c" and k: "0 \<le> current_index st"
  shows "\<exists>st'. playNext (nav_render st) True draws st = Some st'
           \<and> queue st' = queue st \<and> playMode st' = playMode st
           \<and> audioRef st' \<noteq> None \<and> well_formed st' \<and> unique_ids st'
           \<and> currentSong st' = Some (length (heap st))
           \<and> current_index st' = (current_index st + 1) mod int (length (queue st))"
proof -
  let ?n = "int (length (queue st))"
  let ?k = "current_index st"
  let ?j = "(?k + 1) mod ?n"
  let ?s = "queue st ! nat ?j"
  have kn: "?k < ?n"
    unfolding current_index_def by (rule findIndex_lt)
  have npos: "0 < ?n" using n by auto
  have j: "0 \<le> ?j" "?j < ?n"
    using npos by simp_all
  then have jl: "nat ?j < length (queue st)" by linarith
  have kl: "nat ?k < length (queue st)" using k kn by linarith
  have jk: "?j \<noteq> ?k"
    using k kn n by (intro succ_mod_differs) simp_all
  have qv: "\<forall>r \<in> set (queue st). r < length (heap st)"
    using wf by (simp add: well_formed_def)
  have sv: "?s < length (heap st)"
    using qv jl by simp
  have idk: "id_of st (queue st ! nat ?k) = id_of st c"
    using findIndex_holds [of "\<lambda>s. id_of st s = id_of st c" "queue st"] k c
    by (simp add: current_index_def)
  have ids: "id_of st ?s \<noteq> id_of st c"
  proof
    assume "id_of st ?s = id_of st c"
    with u c jl have "?k = int (nat ?j)" by (rule current_index_unique)
    with j jk show False by simp
  qed
  let ?st' = "playSong_begin ?s st"
  have rc: "r_currentSong (nav_render st) = Some c" using c by simp
  have ps: "playSong (nav_render st) ?s st = ?st'"
    using a rc ids by (rule playSong_other_id)
  have nx: "playNext (nav_render st) True draws st = Some ?st'"
    using m n c j k ps
    by (auto simp: playNext_def Let_def js_rem_nonneg js_nth_def playSong_at_def)
  have inq: "in_queue st (id_of st ?s)"
    using jl by (auto simp: in_queue_iff)
  have q: "queue ?st' = queue st"
    using qv sv inq by (simp add: playSong_begin_queue)
  have h: "heap ?st' = heap st @ [deref st ?s]"
    by (rule playSong_begin_heap)
  have cur: "currentSong ?st' = Some (length (heap st))"
    by (rule playSong_begin_currentSong)
  have idq: "id_of ?st' x = id_of st x" if "x \<in> set (queue st)" for x
    using h qv that by (intro id_of_extend) auto
  have idn: "id_of ?st' (length (heap st)) = id_of st ?s"
    by (rule playSong_begin_current_id)
  have "current_index ?st' = int (nat ?j)"
    using q cur idn idq u jl by (rule current_index_after)
  then have ci: "current_index ?st' = ?j" using j by simp
  have wf': "well_formed ?st'"
    using qv by (auto simp: well_formed_def q h cur)
  have me: "map (id_of ?st') (queue st) = map (id_of st) (queue st)"
    by (rule map_cong) (simp_all add: idq)
  have u': "unique_ids ?st'"
    using u by (simp only: unique_ids_def q me)
  show ?thesis
    using nx q cur ci wf' u' a by (simp add: playSong_begin_same)
qed

lemma next_times_Suc:
  "next_times j (Suc m) st =
     (case playNext (nav_render st) True [] st of
        None \<Rightarrow> None
      | Some st' \<Rightarrow> next_times j m (commit j st'))"
  by (simp add: next_times_def react_def split: option.splits)

lemma next_times_index:
  assumes "well_formed st" and "unique_ids st" and "audioRef st \<noteq> None"
    and "playMode st \<noteq> Shuffle" and "1 < length (queue st)"
    and "currentSong st = Some c" and "0 \<le> current_index st"
  shows "\<exists>st'. next_times j m st = Some st' \<and> queue st' = queue st
           \<and> current_index st' = (current_index st + int m) mod int (length (queue st))"
  using assms
proof (induction m arbitrary: st c)
  case 0
  have "current_index st < int (length (queue st))"
    unfolding current_index_def by (rule findIndex_lt)
  with 0 show ?case by (simp add: next_times_def)
next
  case (Suc m)
  from playNext_sequential_step [OF Suc.prems, of "[]"] obtain st1 where
    s: "playNext (nav_render st) True [] st = Some st1" "queue st1 = queue st"
      "playMode st1 = playMode st"
      "audioRef st1 \<noteq> None" "well_formed st1" "unique_ids st1"
      "currentSong st1 = Some (length (heap st))"
      "current_index st1 = (current_index st + 1) mod int (length (queue st))"
    by blast
  let ?st2 = "commit j st1"
  have s2: "queue ?st2 = queue st" "playMode ?st2 \<noteq> Shuffle" "audioRef ?st2 \<noteq> None"
    "well_formed ?st2" "unique_ids ?st2" "currentSong ?st2 = Some (length (heap st))"
    "current_index ?st2 = (current_index st + 1) mod int (length (queue st))"
    "1 < length (queue ?st2)"
    using s Suc.prems(4,5)
    by (simp_all add: commit_same well_formed_commit unique_ids_commit current_index_commit)
  have "0 < int (length (queue st))"
    using Suc.prems(5) by auto
  then have k1: "0 \<le> current_index ?st2"
    unfolding s2(7) by (rule pos_mod_sign)
  from Suc.IH [OF s2(4,5,3,2,8,6) k1] s2(1)
  obtain st' where
    t: "next_times j m ?st2 = Some st'" "queue st' = queue st"
      "current_index st' = (current_index ?st2 + int m) mod int (length (queue st))"
    by auto
  have "(current_index ?st2 + int m) mod int (length (queue st))
          = (current_index st + int (Suc m)) mod int (length (queue st))"
    unfolding s2(7) by (simp add: mod_simps algebra_simps)
  with s(1) t show ?case by (simp add: next_times_Suc)
qed

lemma current_index_found:
  "currentSong st = Some c \<Longrightarrow> in_queue st (id_of st c) \<Longrightarrow> 0 \<le> current_index st"
  using findIndex_neg_iff [of "\<lambda>s. id_of st s = id_of st c" "queue st"]
  by (auto simp: current_index_def in_queue_iff not_less [symmetric])

text \<open>
  Claim C9. In sequential mode, with more than one track in a queue that is unique by
  identifier and the current track in it, \<open>playNext(true)\<close> leaves the queue as it is and
  moves the current track to index \<open>(currentIndex + 1) mod n\<close>, the last entry wrapping
  to the first; \<open>n\<close> such calls in a row, each followed by its render, come back to the
  index they started from. This holds of both revisions.
\<close>

theorem next_wraps_around:
  assumes "playMode st = Sequence" and "1 < length (queue st)" and "unique_ids st"
    and "well_formed st" and "audioRef st \<noteq> None"
    and "currentSong st = Some c" and "in_queue st (id_of st c)"
  shows "(\<exists>st1. playNext (nav_render st) True draws st = Some st1 \<and> queue st1 = queue st
            \<and> current_index st1 = (current_index st + 1) mod int (length (queue st)))
       \<and> (\<exists>st'. next_times j (length (queue st)) st = Some st' \<and> queue st' = queue st
            \<and> current_index st' = current_index st)"
proof
  have k: "0 \<le> current_index st"
    using assms(6,7) by (rule current_index_found)
  have m: "playMode st \<noteq> Shuffle"
    using assms(1) by simp
  from playNext_sequential_step [OF assms(4,3,5) m assms(2,6) k, of draws]
  show "\<exists>st1. playNext (nav_render st) True draws st = Some st1 \<and> queue st1 = queue st
            \<and> current_index st1 = (current_index st + 1) mod int (length (queue st))"
    by blast
  have kn: "current_index st < int (length (queue st))"
    unfolding current_index_def by (rule findIndex_lt)
  from next_times_index [OF assms(4,3,5) m assms(2,6) k, of j "length (queue st)"]
  show "\<exists>st'. next_times j (length (queue st)) st = Some st' \<and> queue st' = queue st
            \<and> current_index st' = current_index st"
    using k kn by simp
qed

theorem next_wraps_around_witness:
  "playMode session = Sequence \<and> 1 < length (queue session) \<and> unique_ids session
   \<and> well_formed session \<and> audioRef session \<noteq> None \<and> currentSong session = Some 1
   \<and> in_queue session (id_of session 1)
   \<and> current_index session = 1
   \<and> map_option current_index (playNext (nav_render session) True [] session) = Some 2
   \<and> map_option current_index (next_times toy_codec 2 session) = Some 0
   \<and> map_option current_index (next_times toy_codec 3 session) = Some 1
   \<and> (\<exists>st'. next_times toy_codec (length (queue session)) session = Some st'
          \<and> queue st' = queue session \<and> current_index st' = current_index session)"
proof -
  have h: "playMode session = Sequence" "1 < length (queue session)" "unique_ids session"
    "well_formed session" "audioRef session \<noteq> None" "currentSong session = Some 1"
    "in_queue session (id_of session 1)"
    by (simp_all add: fixture_defs unique_ids_def well_formed_def in_queue_iff id_of_def deref_def)
  have e: "current_index session = 1"
    "map_option current_index (playNext (nav_render session) True [] session) = Some 2"
    "map_option current_index (next_times toy_codec 2 session) = Some 0"
    "map_option current_index (next_times toy_codec 3 session) = Some 1"
    by code_simp+
  from next_wraps_around [OF h, of "[]" toy_codec] h e show ?thesis
    by blast
qed

subsection \<open>What the handlers keep\<close>

lemma playSong_begin_grows: "length (heap st) \<le> length (heap (playSong_begin song st))"
  by (simp add: playSong_begin_heap)

lemma playSong_keeps:
  "revision (playSong v song st) = revision st"
  "first_render (playSong v song st) = first_render st"
  "length (heap st) \<le> length (heap (playSong v song st))"
  "revision (togglePlay v st) = revision st"
  "first_render (togglePlay v st) = first_render st"
  "length (heap st) \<le> length (heap (togglePlay v st))"
  using playSong_cases(1) [of v song st] playSong_cases(2) [of v st]
  by (auto simp: toggle_now_same playSong_begin_same playSong_begin_heap)

lemma playSong_at_keeps:
  "revision (playSong_at v r st) = revision st"
  "first_render (playSong_at v r st) = first_render st"
  "length (heap st) \<le> length (heap (playSong_at v r st))"
  by (cases r; simp add: playSong_at_def playSong_keeps)+

lemma playNext_keeps:
  assumes "playNext v force draws st = Some st'"
  shows "revision st' = revision st" and "first_render st' = first_render st"
    and "length (heap st) \<le> length (heap st')"
  using assms
  by (auto simp: playNext_def Let_def playSong_at_keeps split: if_splits option.splits)

lemma playPrev_keeps:
  "revision (playPrev v draw st) = revision st"
  "first_render (playPrev v draw st) = first_render st"
  "length (heap st) \<le> length (heap (playPrev v draw st))"
  by (simp_all add: playPrev_def Let_def playSong_at_keeps)

lemma queue_ops_keep:
  "revision (addToQueue song st) = revision st"
  "first_render (addToQueue song st) = first_render st"
  "heap (addToQueue song st) = heap st"
  "revision (removeFromQueue i st) = revision st"
  "first_render (removeFromQueue i st) = first_render st"
  "heap (removeFromQueue i st) = heap st"
  "revision (clearQueue st) = revision st"
  "first_render (clearQueue st) = first_render st"
  "heap (clearQueue st) = heap st"
  "revision (togglePlayMode st) = revision st"
  "first_render (togglePlayMode st) = first_render st"
  "heap (togglePlayMode st) = heap st"
  by (simp_all add: addToQueue_def removeFromQueue_def clearQueue_def togglePlayMode_def
      setPlayMode_def)

lemma getSongUrl_resolved_keeps:
  "revision (getSongUrl_resolved song fullSong u st) = revision st"
  "first_render (getSongUrl_resolved song fullSong u st) = first_render st"
  "length (heap (getSongUrl_resolved song fullSong u st)) = length (heap st)"
  by (simp_all add: getSongUrl_resolved_def Let_def split: option.splits)

lemma getSongInfo_resolved_grows:
  "length (heap st) \<le> length (heap (getSongInfo_resolved song fullSong info st))"
  by (simp add: getSongInfo_resolved_def Let_def split: option.splits)

lemma flags_keep:
  "revision (getSongUrl_rejected st) = revision st"
  "first_render (getSongUrl_rejected st) = first_render st"
  "heap (getSongUrl_rejected st) = heap st"
  "heap (getSongInfo_rejected st) = heap st"
  "revision (play_resolved st) = revision st"
  "first_render (play_resolved st) = first_render st"
  "heap (play_resolved st) = heap st"
  "revision (play_rejected st) = revision st"
  "first_render (play_rejected st) = first_render st"
  "heap (play_rejected st) = heap st"
  "revision (seek t st) = revision st"
  "first_render (seek t st) = first_render st"
  "heap (seek t st) = heap st"
  "revision (handleTimeUpdate t st) = revision st"
  "first_render (handleTimeUpdate t st) = first_render st"
  "heap (handleTimeUpdate t st) = heap st"
  "revision (handleLoadedMetadata d st) = revision st"
  "first_render (handleLoadedMetadata d st) = first_render st"
  "heap (handleLoadedMetadata d st) = heap st"
  "revision (handleError st) = revision st"
  "first_render (handleError st) = first_render st"
  "heap (handleError st) = heap st"
  "revision (handleWaiting st) = revision st"
  "first_render (handleWaiting st) = first_render st"
  "heap (handleWaiting st) = heap st"
  "revision (handleCanPlay st) = revision st"
  "first_render (handleCanPlay st) = first_render st"
  "heap (handleCanPlay st) = heap st"
  by (simp_all add: getSongUrl_rejected_def getSongInfo_rejected_def play_resolved_def
      play_rejected_def seek_def handleTimeUpdate_def handleLoadedMetadata_def Let_def
      handleError_def handleWaiting_def handleCanPlay_def)

lemma handle_keeps:
  assumes "handle e st = Some st'"
  shows "revision st' = revision st" and "first_render st' = first_render st"
    and "length (heap st) \<le> length (heap st')"
proof -
  have "revision st' = revision st \<and> first_render st' = first_render st
          \<and> length (heap st) \<le> length (heap st')"
  proof (cases e)
    case (PlayNext force draws)
    with assms have "playNext (nav_render st) force draws st = Some st'" by simp
    then show ?thesis by (simp add: playNext_keeps)
  next
    case (Ended draws)
    with assms have "playNext (first_render st) False draws st = Some st'"
      by (simp add: handleEnded_def)
    then show ?thesis by (simp add: playNext_keeps)
  qed (use assms in \<open>auto simp: playSong_keeps playPrev_keeps queue_ops_keep
         getSongUrl_resolved_keeps getSongInfo_resolved_same getSongInfo_resolved_grows
         flags_keep getSongInfo_rejected_def\<close>)
  then show "revision st' = revision st" and "first_render st' = first_render st"
    and "length (heap st) \<le> length (heap st')"
    by simp_all
qed

subsection \<open>Lemmas on persistence\<close>

lemma getLocal_default:
  assumes "ls = Blocked \<or> (\<exists>t. ls = Items t \<and>
             (t key = None \<or> t key = Some []
              \<or> (\<exists>item e. t key = Some item \<and> parse_json item = Inl e)))"
  shows "getLocal parse_json ls key def = def"
  using assms by (auto simp: getLocal_def getItem_def)

lemma getLocal_value:
  assumes "ls = Items t" and "t key = Some item" and "item \<noteq> []"
    and "parse_json item = Inr v"
  shows "getLocal parse_json ls key def = v"
  using assms by (simp add: getLocal_def getItem_def)

lemma map_nth_append_upt:
  "map ((!) (xs @ ys)) [length xs ..< length xs + length ys] = ys"
proof (rule nth_equalityI)
  show "length (map ((!) (xs @ ys)) [length xs ..< length xs + length ys]) = length ys"
    by simp
next
  fix i
  assume "i < length (map ((!) (xs @ ys)) [length xs ..< length xs + length ys])"
  then show "map ((!) (xs @ ys)) [length xs ..< length xs + length ys] ! i = ys ! i"
    by (simp add: nth_append)
qed

lemma initial_state_fields:
  "map (deref (initial_state rv cur q m t h)) (queue (initial_state rv cur q m t h)) = q"
  "map_option (deref (initial_state rv cur q m t h)) (currentSong (initial_state rv cur q m t h))
     = cur"
  "playMode (initial_state rv cur q m t h) = m"
  "\<not> isPlaying (initial_state rv cur q m t h)"
  "\<not> isLoading (initial_state rv cur q m t h)"
  "audioRef (initial_state rv cur q m t h) = None"
  "revision (initial_state rv cur q m t h) = rv"
  "well_formed (initial_state rv cur q m t h)"
  "first_render (initial_state rv cur q m t h) = latest (initial_state rv cur q m t h)"
proof -
  have d: "deref (initial_state rv cur q m t h) =
      (!) ((case cur of None \<Rightarrow> [] | Some s \<Rightarrow> [s]) @ q)"
    by (rule ext) (simp add: deref_def initial_state_def Let_def)
  show "map (deref (initial_state rv cur q m t h)) (queue (initial_state rv cur q m t h)) = q"
    unfolding d by (simp add: initial_state_def Let_def map_nth_append_upt)
  show "map_option (deref (initial_state rv cur q m t h))
          (currentSong (initial_state rv cur q m t h)) = cur"
    unfolding d by (simp add: initial_state_def Let_def split: option.splits)
  show "well_formed (initial_state rv cur q m t h)"
    by (auto simp: well_formed_def initial_state_def Let_def split: option.splits)
qed (simp_all add: initial_state_def Let_def latest_def)

lemma PlayerProvider_init_None:
  "(PlayerProvider_init c Later ls h = None) =
      (as_song c (getLocal (parse c) ls key_current_song JNull) = None
     \<or> as_queue c (getLocal (parse c) ls key_queue (JArr [])) = None
     \<or> as_mode (getLocal (parse c) ls key_play_mode (JStr ''sequence'')) = None)"
  by (simp add: PlayerProvider_init_def Let_def split: option.splits)

lemma PlayerProvider_init_Some:
  assumes "PlayerProvider_init c Later ls h = Some st"
  shows "as_queue c (getLocal (parse c) ls key_queue (JArr [])) = Some (map (deref st) (queue st))"
    and "as_song c (getLocal (parse c) ls key_current_song JNull)
           = Some (map_option (deref st) (currentSong st))"
    and "as_mode (getLocal (parse c) ls key_play_mode (JStr ''sequence'')) = Some (playMode st)"
    and "\<not> isPlaying st" and "\<not> isLoading st"
  using assms
  by (auto simp: PlayerProvider_init_def Let_def initial_state_fields split: option.splits)

lemma PlayerProvider_init_defaults:
  "\<exists>st. PlayerProvider_init c Later Blocked h = Some st
      \<and> queue st = [] \<and> currentSong st = None \<and> playMode st = Sequence"
  by (simp add: PlayerProvider_init_def Let_def getLocal_def getItem_def as_song_def
      as_queue_def as_mode_def initial_state_def)

lemma tracked_refl: "tracked st st"
  by (simp add: tracked_def)

lemma tracked_toggle_now: "tracked st (toggle_now v st)"
  by (simp add: tracked_def toggle_now_same)

lemma tracked_playSong_begin: "tracked st (playSong_begin song st)"
  by (simp add: tracked_def playSong_begin_def Let_def setCurrentSong_def)

lemma tracked_playSong: "tracked st (playSong v song st)"
  using playSong_cases(1) [of v song st]
  by (auto simp: tracked_refl tracked_toggle_now tracked_playSong_begin)

lemma tracked_togglePlay: "tracked st (togglePlay v st)"
  using playSong_cases(2) [of v st]
  by (auto simp: tracked_refl tracked_toggle_now tracked_playSong_begin)

lemma tracked_playSong_at: "tracked st (playSong_at v r st)"
  by (cases r) (simp_all add: playSong_at_def tracked_refl tracked_playSong)

lemma tracked_playNext: "playNext v force draws st = Some st' \<Longrightarrow> tracked st st'"
  by (auto simp: playNext_def Let_def tracked_refl tracked_playSong_at
      split: if_splits option.splits) (simp_all add: tracked_def)

lemma tracked_playPrev: "tracked st (playPrev v draw st)"
  by (simp add: playPrev_def Let_def tracked_refl tracked_playSong_at)

lemma tracked_queue_ops:
  "tracked st (addToQueue song st)" "tracked st (removeFromQueue i st)"
  "tracked st (clearQueue st)" "tracked st (togglePlayMode st)"
  by (simp_all add: tracked_def addToQueue_def removeFromQueue_def clearQueue_def
      togglePlayMode_def setPlayMode_def)

lemma tracked_getSongUrl_resolved: "tracked st (getSongUrl_resolved song fullSong u st)"
  by (simp add: tracked_def getSongUrl_resolved_def Let_def split: option.splits)

lemma tracked_getSongInfo_resolved: "tracked st (getSongInfo_resolved song fullSong info st)"
  by (simp add: tracked_def getSongInfo_resolved_def Let_def setCurrentSong_def
      split: option.splits)

lemma tracked_flags:
  "tracked st (getSongUrl_rejected st)" "tracked st (getSongInfo_rejected st)"
  "tracked st (play_resolved st)" "tracked st (play_rejected st)"
  "tracked st (seek t st)" "tracked st (handleTimeUpdate t st)"
  "tracked st (handleLoadedMetadata d st)" "tracked st (handleError st)"
  "tracked st (handleWaiting st)" "tracked st (handleCanPlay st)"
  by (simp_all add: tracked_def getSongUrl_rejected_def getSongInfo_rejected_def
      play_resolved_def play_rejected_def seek_def handleTimeUpdate_def Let_def
      handleLoadedMetadata_def handleError_def handleWaiting_def handleCanPlay_def)

lemma tracked_handle: "handle e st = Some st' \<Longrightarrow> tracked st st'"
  by (cases e)
     (auto simp: tracked_playSong tracked_togglePlay tracked_playNext tracked_playPrev
        tracked_queue_ops tracked_getSongUrl_resolved tracked_getSongInfo_resolved
        tracked_flags handleEnded_def)

lemma keys_distinct:
  "key_queue \<noteq> key_current_song" "key_queue \<noteq> key_play_mode"
  "key_current_song \<noteq> key_play_mode"
  by (simp_all add: key_queue_def key_current_song_def key_play_mode_def)

lemma deref_storage: "deref (st\<lparr>storage := x\<rparr>) = deref st"
  by (rule ext) (simp add: deref_def)

lemma deref_commit: "deref (commit j st) = deref st"
  by (rule ext) (simp add: deref_def commit_same)

lemma commit_storage:
  assumes "revision st = Later"
  shows "key_queue \<in> changed st \<Longrightarrow>
     storage (commit j st) key_queue = Some (stringify_queue j (map (deref st) (queue st)))"
  and "key_current_song \<in> changed st \<Longrightarrow>
     storage (commit j st) key_current_song
       = Some (stringify_song j (map_option (deref st) (currentSong st)))"
  and "key_play_mode \<in> changed st \<Longrightarrow>
     storage (commit j st) key_play_mode = Some (stringify_mode j (playMode st))"
  using keys_distinct assms
  by (auto simp: commit_def persist_queue_def persist_current_song_def
      persist_play_mode_def deref_storage deref_def [abs_def] Let_def)

lemma react_persists:
  assumes "revision st = Later" and "react j e st = Some st'"
  shows "(queue st' \<noteq> queue st \<longrightarrow>
            storage st' key_queue = Some (stringify_queue j (map (deref st') (queue st'))))
       \<and> (currentSong st' \<noteq> currentSong st \<longrightarrow>
            storage st' key_current_song
              = Some (stringify_song j (map_option (deref st') (currentSong st'))))
       \<and> (playMode st' \<noteq> playMode st \<longrightarrow>
            storage st' key_play_mode = Some (stringify_mode j (playMode st')))"
proof -
  from assms(2) obtain s where s: "handle e st = Some s" and st': "st' = commit j s"
    by (auto simp: react_def)
  from s have t: "tracked st s" by (rule tracked_handle)
  from s assms(1) have r: "revision s = Later" by (simp add: handle_keeps)
  show ?thesis
    unfolding st' commit_same deref_commit using t
    by (auto simp: tracked_def commit_storage [OF r])
qed

subsection \<open>Startup and persistence\<close>

lemma commit_unscheduled: "changed st = {} \<Longrightarrow> storage (commit c st) = storage st"
  by (simp add: commit_def persist_queue_def persist_current_song_def persist_play_mode_def)

lemma getSongUrl_resolved_unscheduled:
  "changed (getSongUrl_resolved song fullSong u st) = changed st"
  "storage (getSongUrl_resolved song fullSong u st) = storage st"
  by (simp_all add: getSongUrl_resolved_def Let_def split: option.splits)

lemma getSongUrl_resolved_url:
  assumes "truthy u" and "fullSong < length (heap st)"
  shows "url (deref (getSongUrl_resolved song fullSong u st) fullSong) = u"
  using assms by (simp add: getSongUrl_resolved_def Let_def deref_def split: option.splits)

lemma url_write_not_persisted:
  assumes "changed st = {}" and "react c (UrlResolved song fullSong u) st = Some st'"
  shows "storage st' = storage st"
    and "truthy u \<Longrightarrow> fullSong < length (heap st) \<Longrightarrow> url (deref st' fullSong) = u"
proof -
  from assms(2) have st': "st' = commit c (getSongUrl_resolved song fullSong u st)"
    by (auto simp: react_def)
  show "storage st' = storage st"
    unfolding st' using assms(1)
    by (simp add: commit_unscheduled getSongUrl_resolved_unscheduled)
  assume "truthy u" and "fullSong < length (heap st)"
  then show "url (deref st' fullSong) = u"
    unfolding st' deref_commit by (rule getSongUrl_resolved_url)
qed

text \<open>
  Claim C10, as amended. \<open>getLocal\<close> returns the default, and raises nothing, whenever the
  record cannot be read (\<open>localStorage\<close> is blocked), is missing or empty, or
  \<open>JSON.parse\<close> throws; every record that \<open>JSON.parse\<close> accepts is returned as parsed,
  whatever its shape. The first render of the later revision takes the queue, the current
  track and the mode from \<open>getLocal\<close> with the defaults \<open>[]\<close>, \<open>null\<close> and
  \<open>'sequence'\<close>; it has a state of the declared types exactly when the three values
  returned have them, and then starts neither playing nor loading. After any event, once
  the render is committed, each of \<open>queue\<close>, \<open>currentSong\<close> and \<open>playMode\<close> that a
  setter gave a new value has its serialisation stored under its key. The continuation of
  \<open>playSong\<close> that writes \<open>fullSong.url\<close> in place changes the object and, with no
  effect scheduled, nothing in the storage.
\<close>

theorem session_persistence:
  "((ls = Blocked \<or> (\<exists>t. ls = Items t \<and>
        (t key = None \<or> t key = Some []
         \<or> (\<exists>item e. t key = Some item \<and> parse_json item = Inl e))))
      \<longrightarrow> getLocal parse_json ls key def = def)
   \<and> (\<forall>t item v. ls = Items t \<and> t key = Some item \<and> item \<noteq> [] \<and> parse_json item = Inr v
         \<longrightarrow> getLocal parse_json ls key def = v)
   \<and> (PlayerProvider_init c Later ls h = None) =
        (as_song c (getLocal (parse c) ls key_current_song JNull) = None
       \<or> as_queue c (getLocal (parse c) ls key_queue (JArr [])) = None
       \<or> as_mode (getLocal (parse c) ls key_play_mode (JStr ''sequence'')) = None)
   \<and> (\<forall>s. PlayerProvider_init c Later ls h = Some s \<longrightarrow>
          as_queue c (getLocal (parse c) ls key_queue (JArr []))
            = Some (map (deref s) (queue s))
        \<and> as_song c (getLocal (parse c) ls key_current_song JNull)
            = Some (map_option (deref s) (currentSong s))
        \<and> as_mode (getLocal (parse c) ls key_play_mode (JStr ''sequence''))
            = Some (playMode s)
        \<and> \<not> isPlaying s \<and> \<not> isLoading s)
   \<and> (\<exists>s. PlayerProvider_init c Later Blocked h = Some s
          \<and> queue s = [] \<and> currentSong s = None \<and> playMode s = Sequence)
   \<and> (revision st = Later \<longrightarrow>
        (\<forall>st'. react c e st = Some st' \<longrightarrow>
          (queue st' \<noteq> queue st \<longrightarrow>
             storage st' key_queue = Some (stringify_queue c (map (deref st') (queue st'))))
        \<and> (currentSong st' \<noteq> currentSong st \<longrightarrow>
             storage st' key_current_song
               = Some (stringify_song c (map_option (deref st') (currentSong st'))))
        \<and> (playMode st' \<noteq> playMode st \<longrightarrow>
             storage st' key_play_mode = Some (stringify_mode c (playMode st')))))
   \<and> (changed st = {} \<longrightarrow>
        (\<forall>st'. react c (UrlResolved song fullSong u) st = Some st' \<longrightarrow>
           storage st' = storage st
         \<and> (truthy u \<and> fullSong < length (heap st) \<longrightarrow> url (deref st' fullSong) = u)))"
proof (intro conjI impI allI)
  assume "ls = Blocked \<or> (\<exists>t. ls = Items t \<and>
        (t key = None \<or> t key = Some []
         \<or> (\<exists>item e. t key = Some item \<and> parse_json item = Inl e)))"
  then show "getLocal parse_json ls key def = def"
    by (rule getLocal_default)
next
  fix t item v
  assume "ls = Items t \<and> t key = Some item \<and> item \<noteq> [] \<and> parse_json item = Inr v"
  then show "getLocal parse_json ls key def = v"
    by (auto intro: getLocal_value)
next
  show "(PlayerProvider_init c Later ls h = None) =
        (as_song c (getLocal (parse c) ls key_current_song JNull) = None
       \<or> as_queue c (getLocal (parse c) ls key_queue (JArr [])) = None
       \<or> as_mode (getLocal (parse c) ls key_play_mode (JStr ''sequence'')) = None)"
    by (rule PlayerProvider_init_None)
next
  fix s
  assume s: "PlayerProvider_init c Later ls h = Some s"
  show "as_queue c (getLocal (parse c) ls key_queue (JArr []))
            = Some (map (deref s) (queue s))"
    using s by (rule PlayerProvider_init_Some)
  show "as_song c (getLocal (parse c) ls key_current_song JNull)
            = Some (map_option (deref s) (currentSong s))"
    using s by (rule PlayerProvider_init_Some)
  show "as_mode (getLocal (parse c) ls key_play_mode (JStr ''sequence''))
            = Some (playMode s)"
    using s by (rule PlayerProvider_init_Some)
  show "\<not> isPlaying s" using s by (rule PlayerProvider_init_Some)
  show "\<not> isLoading s" using s by (rule PlayerProvider_init_Some)
next
  show "\<exists>s. PlayerProvider_init c Later Blocked h = Some s
          \<and> queue s = [] \<and> currentSong s = None \<and> playMode s = Sequence"
    by (rule PlayerProvider_init_defaults)
next
  fix st'
  assume l: "revision st = Later" and r: "react c e st = Some st'"
  {
    assume "queue st' \<noteq> queue st"
    with react_persists [OF l r]
    show "storage st' key_queue = Some (stringify_queue c (map (deref st') (queue st')))"
      by blast
  }
  {
    assume "currentSong st' \<noteq> currentSong st"
    with react_persists [OF l r]
    show "storage st' key_current_song
               = Some (stringify_song c (map_option (deref st') (currentSong st')))"
      by blast
  }
  {
    assume "playMode st' \<noteq> playMode st"
    with react_persists [OF l r]
    show "storage st' key_play_mode = Some (stringify_mode c (playMode st'))"
      by blast
  }
next
  fix st'
  assume n: "changed st = {}" and r: "react c (UrlResolved song fullSong u) st = Some st'"
  show "storage st' = storage st"
    using n r by (rule url_write_not_persisted)
  {
    assume "truthy u \<and> fullSong < length (heap st)"
    then show "url (deref st' fullSong) = u"
      using url_write_not_persisted(2) [OF n r] by simp
  }
qed

theorem session_persistence_witness:
  "getLocal toy_parse Blocked key_queue (JArr []) = JArr []
   \<and> [key_play_mode \<mapsto> quoted ''loop''] key_play_mode = Some (quoted ''loop'')
   \<and> quoted ''loop'' \<noteq> []
   \<and> toy_parse (quoted ''loop'') = Inr (JStr ''loop'')
   \<and> getLocal toy_parse (Items [key_play_mode \<mapsto> quoted ''loop'']) key_play_mode
        (JStr ''sequence'') = JStr ''loop''
   \<and> (\<exists>s. PlayerProvider_init toy_codec Later (Items [key_play_mode \<mapsto> quoted ''loop''])
             ''https://tunefree.app/'' = Some s
          \<and> playMode s = Loop \<and> queue s = [] \<and> currentSong s = None)
   \<and> revision session = Later
   \<and> (\<exists>st'. react toy_codec TogglePlayMode session = Some st'
          \<and> playMode st' \<noteq> playMode session
          \<and> storage st' key_play_mode = Some (quoted ''loop''))
   \<and> (\<exists>st'. react toy_codec ClearQueue session = Some st'
          \<and> queue st' \<noteq> queue session
          \<and> storage st' key_queue = Some ''[]'')
   \<and> changed session = {}
   \<and> truthy (Some ''https://cdn.example/2.mp3'')
   \<and> 1 < length (heap session)
   \<and> (\<exists>st'. react toy_codec (UrlResolved 1 1 (Some ''https://cdn.example/2.mp3'')) session
                = Some st'
          \<and> storage st' = storage session
          \<and> url (deref st' 1) = Some ''https://cdn.example/2.mp3'')"
proof -
  let ?ls = "Items [key_play_mode \<mapsto> quoted ''loop'']"
  let ?h = "''https://tunefree.app/''"
  have a: "getLocal toy_parse Blocked key_queue (JArr []) = JArr []"
    using session_persistence [of Blocked key_queue toy_parse "JArr []"]
    by blast
  have b: "[key_play_mode \<mapsto> quoted ''loop''] key_play_mode = Some (quoted ''loop'')"
    "quoted ''loop'' \<noteq> []" "toy_parse (quoted ''loop'') = Inr (JStr ''loop'')"
    by (simp_all add: toy_parse_def quoted_def)
  have c: "getLocal toy_parse ?ls key_play_mode (JStr ''sequence'') = JStr ''loop''"
    using session_persistence [of ?ls key_play_mode toy_parse "JStr ''sequence''"] b
    by blast
  have p: "parse toy_codec = toy_parse" by (simp add: toy_codec_def)
  have g: "getLocal toy_parse ?ls key_queue (JArr []) = JArr []"
    "getLocal toy_parse ?ls key_current_song JNull = JNull"
    using keys_distinct by (simp_all add: getLocal_def getItem_def)
  have n: "PlayerProvider_init toy_codec Later ?ls ?h \<noteq> None"
    using session_persistence [of ?ls key_play_mode toy_parse "JStr ''sequence''" toy_codec ?h]
      c g
    by (simp add: p as_song_def as_queue_def as_mode_def)
  then obtain s where s: "PlayerProvider_init toy_codec Later ?ls ?h = Some s" by auto
  have "as_queue toy_codec (getLocal (parse toy_codec) ?ls key_queue (JArr []))
            = Some (map (deref s) (queue s))
        \<and> as_song toy_codec (getLocal (parse toy_codec) ?ls key_current_song JNull)
            = Some (map_option (deref s) (currentSong s))
        \<and> as_mode (getLocal (parse toy_codec) ?ls key_play_mode (JStr ''sequence''))
            = Some (playMode s)"
    using session_persistence [of ?ls key_play_mode toy_parse "JStr ''sequence''" toy_codec ?h]
      s
    by blast
  then have f: "playMode s = Loop" "queue s = []" "currentSong s = None"
    using c g by (simp_all add: p as_song_def as_queue_def as_mode_def)
  have l: "revision session = Later" by (simp add: fixture_defs)
  obtain s1 where s1: "react toy_codec TogglePlayMode session = Some s1"
    by (simp add: react_def)
  have m1: "playMode s1 = Loop" "playMode session = Sequence"
    using s1 by (auto simp: react_def togglePlayMode_def setPlayMode_def commit_same fixture_defs)
  have "storage s1 key_play_mode = Some (stringify_mode toy_codec (playMode s1))"
    using session_persistence [of Blocked key_queue toy_parse "JArr []" toy_codec "[]"
        session TogglePlayMode] s1 m1 l
    by simp
  then have d: "storage s1 key_play_mode = Some (quoted ''loop'')"
    using m1 by (simp add: toy_codec_def)
  obtain s2 where s2: "react toy_codec ClearQueue session = Some s2"
    by (simp add: react_def)
  have m2: "queue s2 = []" "queue session \<noteq> []"
    using s2 by (auto simp: react_def clearQueue_def commit_same fixture_defs)
  have "storage s2 key_queue = Some (stringify_queue toy_codec (map (deref s2) (queue s2)))"
    using session_persistence [of Blocked key_queue toy_parse "JArr []" toy_codec "[]"
        session ClearQueue] s2 m2 l
    by simp
  then have e: "storage s2 key_queue = Some ''[]''"
    using m2 by (simp add: toy_codec_def)
  have k: "changed session = {}" "truthy (Some ''https://cdn.example/2.mp3'')"
    "1 < length (heap session)"
    by (simp_all add: fixture_defs truthy_def)
  obtain s3 where
    s3: "react toy_codec (UrlResolved 1 1 (Some ''https://cdn.example/2.mp3'')) session = Some s3"
    by (simp add: react_def)
  have w: "storage s3 = storage session \<and> url (deref s3 1) = Some ''https://cdn.example/2.mp3''"
    using session_persistence [of Blocked key_queue toy_parse "JArr []" toy_codec "[]"
        session TogglePlayMode 1 1 "Some ''https://cdn.example/2.mp3''"] s3 k
    by blast
  show ?thesis
    using a b c s f l s1 m1 d s2 m2 e k s3 w by auto
qed

text \<open>
  Claim C10 does not hold as stated. A record that \<open>JSON.parse\<close> accepts is returned by
  \<open>getLocal\<close> whatever it is: \<open>null\<close> or \<open>{}\<close> stored under the key of the queue is
  returned in place of the default \<open>[]\<close>, and a string that names no mode in place of
  \<open>'sequence'\<close>; the first render then has no state of the declared types. And the write
  \<open>fullSong.url = url\<close> changes the object of the current track and no state variable,
  so it schedules no effect: after the lookup for \<open>T1\<close> has delivered its URL, the record
  of the current track in the storage is still the one written without it.
\<close>

theorem getLocal_unchecked_counterexample:
  "getLocal toy_parse (Items [key_queue \<mapsto> ''null'']) key_queue (JArr []) = JNull
   \<and> getLocal toy_parse (Items [key_queue \<mapsto> ''{}'']) key_queue (JArr []) = JObj []
   \<and> getLocal toy_parse (Items [key_play_mode \<mapsto> quoted ''party'']) key_play_mode
        (JStr ''sequence'') = JStr ''party''
   \<and> as_queue toy_codec JNull = None
   \<and> as_queue toy_codec (JObj []) = None
   \<and> as_mode (JStr ''party'') = None
   \<and> PlayerProvider_init toy_codec Later (Items [key_queue \<mapsto> ''null''])
        ''https://tunefree.app/'' = None
   \<and> currentSong url_delivered = Some 3
   \<and> url (deref url_delivered 3) = Some ''https://cdn.example/1.mp3''
   \<and> storage url_delivered key_current_song = Some ''track -''
   \<and> stringify_song toy_codec (map_option (deref url_delivered) (currentSong url_delivered))
        = ''track https://cdn.example/1.mp3''"
  by code_simp

subsection \<open>Single repeat\<close>

text \<open>
  What the single-repeat branch of \<open>playNext\<close> does when it is reached: in a render with
  a non-empty queue, a current track and the mode \<open>loop\<close>, and with an audio element,
  \<open>playNext(false)\<close> changes nothing in the session but the log of calls. The position of
  the audio element is set to 0 and \<open>play()\<close> is called; queue, current track and queue
  position stay, and so does the elapsed time of the session, which follows with the next
  \<open>timeupdate\<close> of the element.
\<close>

lemma loop_branch_replays:
  assumes "r_playMode v = Loop" and "r_queue v \<noteq> []" and "r_currentSong v \<noteq> None"
    and "audioRef st \<noteq> None"
  shows "playNext v False draws st
           = Some (st\<lparr>calls := calls st @ [AudioSetCurrentTime 0, AudioPlay]\<rparr>)"
  using assms by (auto simp: playNext_def invoke_def)

lemma loop_branch_frame:
  "queue (st\<lparr>calls := cs\<rparr>) = queue st" "currentSong (st\<lparr>calls := cs\<rparr>) = currentSong st"
  "current_index (st\<lparr>calls := cs\<rparr>) = current_index st"
  "currentTime (st\<lparr>calls := cs\<rparr>) = currentTime st"
  "isPlaying (st\<lparr>calls := cs\<rparr>) = isPlaying st"
  by (simp_all add: current_index_def id_of_def deref_def)

lemma looping_session_replays:
  "map_option calls (playNext (nav_render looping_session) False [] looping_session)
     = Some [AudioSetCurrentTime 0, AudioPlay]
   \<and> map_option currentSong (playNext (nav_render looping_session) False [] looping_session)
       = Some (Some 1)
   \<and> map_option current_index (playNext (nav_render looping_session) False [] looping_session)
       = Some 1
   \<and> map_option currentTime (playNext (nav_render looping_session) False [] looping_session)
       = Some 42"
  by code_simp

text \<open>
  The \<open>ended\<close> listener calls the \<open>playNext\<close> of the first render. When that render had
  an empty queue or no current track, the listener does nothing, whatever the session has
  become since.
\<close>

lemma handleEnded_first_render_empty:
  assumes "r_queue (first_render st) = [] \<or> r_currentSong (first_render st) = None"
  shows "handleEnded draws st = Some st"
  using assms by (auto simp: handleEnded_def playNext_def)

lemma react_first_render: "react c e st = Some st' \<Longrightarrow> first_render st' = first_render st"
  by (auto simp: react_def commit_same handle_keeps)

lemma run_first_render: "run c es st = Some st' \<Longrightarrow> first_render st' = first_render st"
proof (induction es arbitrary: st)
  case Nil
  then show ?case by simp
next
  case (Cons e es)
  from Cons.prems obtain s where s: "react c e st = Some s" and r: "run c es s = Some st'"
    by (auto split: option.splits)
  from Cons.IH [OF r] react_first_render [OF s] show ?case by simp
qed

text \<open>
  The earlier revision always starts from an empty queue, so its \<open>ended\<close> listener never
  does anything: no track is restarted and none follows another by itself.
\<close>

lemma earlier_ended_does_nothing:
  assumes "mount c Earlier ls h ctx = Some st" and "run c es st = Some st'"
  shows "handleEnded draws st' = Some st'"
proof -
  from assms(1) have "r_queue (first_render st) = []"
    by (auto simp: mount_def PlayerProvider_init_def Let_def initial_state_def commit_same
        split: localStorage.splits)
  with run_first_render [OF assms(2)] have "r_queue (first_render st') = []" by simp
  then show ?thesis by (simp add: handleEnded_first_render_empty)
qed

text \<open>
  Claim C6 does not hold of the source. \<open>handleEnded\<close> is created in the effect that
  runs once after the first render, and the \<open>playNext\<close> it calls is the one of that
  render. On a first visit (nothing persisted) that render has an empty queue and no
  current track: \<open>T1\<close> is played and starts, the mode is switched to single repeat, and
  when \<open>T1\<close> ends the listener returns at the first guard of \<open>playNext\<close>. The session is
  what it was: the position of the audio element is not reset, \<open>play()\<close> is not called,
  and the elapsed time stays at the end of the track. The \<open>playNext\<close> of the current
  render, called with \<open>false\<close>, does restart the track. Both revisions behave so.
\<close>

theorem ended_listener_is_stale:
  "map_option playMode (first_visit Later) = Some Loop
   \<and> map_option isPlaying (first_visit Later) = Some True
   \<and> map_option currentSong (first_visit Later) = Some (Some 1)
   \<and> map_option queue (first_visit Later) = Some [1]
   \<and> map_option audioRef (first_visit Later) = Some (Some \<lparr>src = ''https://cdn.example/1.mp3''\<rparr>)
   \<and> map_option currentTime (first_visit Later) = Some 200
   \<and> map_option first_render (first_visit Later)
        = Some \<lparr>r_currentSong = None, r_queue = [], r_playMode = Sequence, r_isPlaying = False\<rparr>
   \<and> map_option calls (first_visit Later)
        = Some [GetSongUrl 1 ''netease'', GetSongInfo 1 ''netease'', AudioLoad, AudioPlay]
   \<and> Option.bind (first_visit Later) (handle (Ended [])) = first_visit Later
   \<and> map_option calls (Option.bind (first_visit Later) (handle (Ended [])))
        = Some [GetSongUrl 1 ''netease'', GetSongInfo 1 ''netease'', AudioLoad, AudioPlay]
   \<and> map_option currentTime (Option.bind (first_visit Later) (handle (Ended []))) = Some 200
   \<and> map_option calls (Option.bind (first_visit Later) (handle (PlayNext False [])))
        = Some [GetSongUrl 1 ''netease'', GetSongInfo 1 ''netease'', AudioLoad, AudioPlay,
                AudioSetCurrentTime 0, AudioPlay]
   \<and> map_option playMode (first_visit Earlier) = Some Loop
   \<and> map_option isPlaying (first_visit Earlier) = Some True
   \<and> map_option currentSong (first_visit Earlier) = Some (Some 1)
   \<and> map_option queue (first_visit Earlier) = Some [1]
   \<and> Option.bind (first_visit Earlier) (handle (Ended [])) = first_visit Earlier
   \<and> map_option calls (Option.bind (first_visit Earlier) (handle (Ended [])))
        = Some [GetSongUrl 1 ''netease'', GetSongInfo 1 ''netease'', AudioLoad, AudioPlay]"
proof -
  have a: "map_option playMode (first_visit Later) = Some Loop"
    "map_option isPlaying (first_visit Later) = Some True"
    "map_option currentSong (first_visit Later) = Some (Some 1)"
    "map_option queue (first_visit Later) = Some [1]"
    "map_option audioRef (first_visit Later) = Some (Some \<lparr>src = ''https://cdn.example/1.mp3''\<rparr>)"
    "map_option currentTime (first_visit Later) = Some 200"
    "map_option calls (first_visit Later)
        = Some [GetSongUrl 1 ''netease'', GetSongInfo 1 ''netease'', AudioLoad, AudioPlay]"
    "map_option calls (Option.bind (first_visit Later) (handle (PlayNext False [])))
        = Some [GetSongUrl 1 ''netease'', GetSongInfo 1 ''netease'', AudioLoad, AudioPlay,
                AudioSetCurrentTime 0, AudioPlay]"
    by code_simp+
  have f: "map_option first_render (first_visit Later)
        = Some \<lparr>r_currentSong = None, r_queue = [], r_playMode = Sequence, r_isPlaying = False\<rparr>"
    by code_simp
  have b: "map_option playMode (first_visit Earlier) = Some Loop"
    "map_option isPlaying (first_visit Earlier) = Some True"
    "map_option currentSong (first_visit Earlier) = Some (Some 1)"
    "map_option queue (first_visit Earlier) = Some [1]"
    "map_option calls (first_visit Earlier)
        = Some [GetSongUrl 1 ''netease'', GetSongInfo 1 ''netease'', AudioLoad, AudioPlay]"
    by code_simp+
  have g: "map_option first_render (first_visit Earlier)
        = Some \<lparr>r_currentSong = None, r_queue = [], r_playMode = Sequence, r_isPlaying = False\<rparr>"
    by code_simp
  have l: "Option.bind (first_visit Later) (handle (Ended [])) = first_visit Later"
  proof -
    from f obtain st where st: "first_visit Later = Some st" and "r_queue (first_render st) = []"
      by auto
    then show ?thesis by (simp add: handleEnded_first_render_empty)
  qed
  have e: "Option.bind (first_visit Earlier) (handle (Ended [])) = first_visit Earlier"
  proof -
    from g obtain st where st: "first_visit Earlier = Some st" and "r_queue (first_render st) = []"
      by auto
    then show ?thesis by (simp add: handleEnded_first_render_empty)
  qed
  show ?thesis
    unfolding l e using a f b by simp
qed

subsection \<open>The session stays well formed\<close>

lemma well_formed_iff:
  "well_formed st \<longleftrightarrow>
     (\<forall>r \<in> set (queue st). r < length (heap st)) \<and>
     (\<forall>c. currentSong st = Some c \<longrightarrow> c < length (heap st))"
  by (auto simp: well_formed_def split: option.splits)

lemma render_ok_iff:
  "render_ok st v \<longleftrightarrow>
     (\<forall>r \<in> set (r_queue v). r < length (heap st)) \<and>
     (\<forall>c. r_currentSong v = Some c \<longrightarrow> c < length (heap st))"
  by (auto simp: render_ok_def split: option.splits)

lemma render_ok_latest:
  "well_formed st \<Longrightarrow> render_ok st (latest st)"
  "well_formed st \<Longrightarrow> render_ok st (nav_render st)"
  by (simp_all add: well_formed_iff render_ok_iff)

lemma render_ok_grows:
  "render_ok st v \<Longrightarrow> length (heap st) \<le> length (heap st') \<Longrightarrow> render_ok st' v"
  by (fastforce simp: render_ok_iff)

lemma well_formed_toggle_now: "well_formed st \<Longrightarrow> well_formed (toggle_now v st)"
  by (simp add: well_formed_iff toggle_now_same)

lemma well_formed_playSong_begin: "well_formed st \<Longrightarrow> well_formed (playSong_begin song st)"
  by (auto simp: well_formed_iff playSong_begin_def Let_def fullSong_of_def less_Suc_eq
      split: option.splits)

lemma well_formed_playSong: "well_formed st \<Longrightarrow> well_formed (playSong v song st)"
  using playSong_cases(1) [of v song st]
  by (auto simp: well_formed_toggle_now well_formed_playSong_begin)

lemma well_formed_togglePlay: "well_formed st \<Longrightarrow> well_formed (togglePlay v st)"
  using playSong_cases(2) [of v st]
  by (auto simp: well_formed_toggle_now well_formed_playSong_begin)

lemma well_formed_playSong_at: "well_formed st \<Longrightarrow> well_formed (playSong_at v r st)"
  by (cases r) (simp_all add: playSong_at_def well_formed_playSong)

lemma well_formed_invoke: "well_formed (invoke c st) = well_formed st"
  by (simp add: well_formed_iff)

lemma well_formed_playNext:
  "well_formed st \<Longrightarrow> playNext v force draws st = Some st' \<Longrightarrow> well_formed st'"
  by (auto simp: playNext_def Let_def well_formed_playSong_at well_formed_invoke
      split: if_splits option.splits)

lemma well_formed_playPrev: "well_formed st \<Longrightarrow> well_formed (playPrev v draw st)"
  by (simp add: playPrev_def Let_def well_formed_playSong_at)

lemma well_formed_queue_ops:
  "well_formed st \<Longrightarrow> song < length (heap st) \<Longrightarrow> well_formed (addToQueue song st)"
  "well_formed st \<Longrightarrow> well_formed (removeFromQueue i st)"
  "well_formed st \<Longrightarrow> well_formed (clearQueue st)"
  "well_formed st \<Longrightarrow> well_formed (togglePlayMode st)"
  by (auto simp: well_formed_iff addToQueue_def removeFromQueue_def clearQueue_def
      togglePlayMode_def setPlayMode_def)

lemma well_formed_getSongUrl_resolved:
  "well_formed st \<Longrightarrow> well_formed (getSongUrl_resolved song fullSong u st)"
  by (auto simp: well_formed_iff getSongUrl_resolved_def Let_def split: option.splits)

lemma well_formed_getSongInfo_resolved:
  "well_formed st \<Longrightarrow> well_formed (getSongInfo_resolved song fullSong info st)"
  by (auto simp: well_formed_iff getSongInfo_resolved_def Let_def fullSong_of_def less_Suc_eq
      split: option.splits)

lemma well_formed_flags:
  "well_formed st \<Longrightarrow> well_formed (getSongUrl_rejected st)"
  "well_formed st \<Longrightarrow> well_formed (getSongInfo_rejected st)"
  "well_formed st \<Longrightarrow> well_formed (play_resolved st)"
  "well_formed st \<Longrightarrow> well_formed (play_rejected st)"
  "well_formed st \<Longrightarrow> well_formed (seek t st)"
  "well_formed st \<Longrightarrow> well_formed (handleTimeUpdate t st)"
  "well_formed st \<Longrightarrow> well_formed (handleLoadedMetadata d st)"
  "well_formed st \<Longrightarrow> well_formed (handleError st)"
  "well_formed st \<Longrightarrow> well_formed (handleWaiting st)"
  "well_formed st \<Longrightarrow> well_formed (handleCanPlay st)"
  by (simp_all add: well_formed_iff getSongUrl_rejected_def getSongInfo_rejected_def
      play_resolved_def play_rejected_def seek_def handleTimeUpdate_def Let_def
      handleLoadedMetadata_def handleError_def handleWaiting_def handleCanPlay_def)

lemma well_formed_handle:
  assumes "well_formed st" and "event_ok st e" and "handle e st = Some st'"
  shows "well_formed st'"
  using assms
  by (cases e)
     (auto simp: well_formed_playSong well_formed_togglePlay well_formed_playNext
        well_formed_playPrev well_formed_queue_ops well_formed_getSongUrl_resolved
        well_formed_getSongInfo_resolved well_formed_flags handleEnded_def)

subsection \<open>The queue stays unique by identifier\<close>

lemma unique_ids_cong:
  assumes "queue st' = queue st"
    and "\<And>x. x \<in> set (queue st) \<Longrightarrow> id_of st' x = id_of st x"
  shows "unique_ids st' = unique_ids st"
proof -
  have "map (id_of st') (queue st) = map (id_of st) (queue st)"
    by (rule map_cong) (simp_all add: assms(2))
  then show ?thesis
    by (simp only: unique_ids_def assms(1))
qed

lemma unique_ids_toggle_now: "unique_ids (toggle_now v st) = unique_ids st"
  by (rule unique_ids_cong) (simp_all add: toggle_now_same id_of_def deref_def)

lemma unique_ids_playSong_begin:
  assumes wf: "well_formed st" and v: "song < length (heap st)" and u: "unique_ids st"
  shows "unique_ids (playSong_begin song st)"
proof -
  let ?st' = "playSong_begin song st"
  have qv: "\<forall>r \<in> set (queue st). r < length (heap st)"
    using wf by (simp add: well_formed_iff)
  have h: "heap ?st' = heap st @ [deref st song]"
    by (rule playSong_begin_heap)
  have idq: "id_of ?st' x = id_of st x" if "x \<in> set (queue st)" for x
    using h qv that by (intro id_of_extend) auto
  have q: "queue ?st' =
     (if in_queue st (id_of st song) then queue st else queue st @ [length (heap st)])"
    using qv v by (rule playSong_begin_queue)
  show ?thesis
  proof (cases "in_queue st (id_of st song)")
    case True
    with q have "queue ?st' = queue st" by simp
    then have "unique_ids ?st' = unique_ids st"
      using idq by (rule unique_ids_cong)
    with u show ?thesis by simp
  next
    case False
    with q have q': "queue ?st' = queue st @ [length (heap st)]" by simp
    have m: "map (id_of ?st') (queue st) = map (id_of st) (queue st)"
      by (rule map_cong) (simp_all add: idq)
    have n: "id_of ?st' (length (heap st)) = id_of st song"
      by (rule playSong_begin_current_id)
    have "id_of st song \<notin> set (map (id_of st) (queue st))"
      using False by (auto simp: in_queue_iff)
    then show ?thesis
      using u by (simp add: unique_ids_def q' m n)
  qed
qed

lemma unique_ids_playSong:
  assumes "well_formed st" and "song < length (heap st)" and "unique_ids st"
  shows "unique_ids (playSong v song st)"
  using playSong_cases(1) [of v song st] assms
  by (auto simp: unique_ids_toggle_now unique_ids_playSong_begin)

lemma unique_ids_togglePlay:
  assumes "well_formed st" and "unique_ids st" and "render_ok st v"
  shows "unique_ids (togglePlay v st)"
proof (cases "r_currentSong v")
  case None
  then show ?thesis using assms(2) by (simp add: togglePlay.simps)
next
  case (Some c)
  with assms(3) have "c < length (heap st)" by (simp add: render_ok_iff)
  with assms Some have "unique_ids (playSong v c st)"
    by (intro unique_ids_playSong)
  with assms(2) Some show ?thesis
    by (simp add: togglePlay.simps unique_ids_toggle_now)
qed

lemma unique_ids_playSong_at:
  assumes "well_formed st" and "unique_ids st" and "render_ok st v"
  shows "unique_ids (playSong_at v (js_nth (r_queue v) i) st)"
proof (cases "js_nth (r_queue v) i")
  case None
  then show ?thesis using assms(2) by (simp add: playSong_at_def)
next
  case (Some s)
  then have "s \<in> set (r_queue v)"
    by (auto simp: js_nth_def split: if_splits)
  with assms(3) have "s < length (heap st)" by (simp add: render_ok_iff)
  with assms Some show ?thesis
    by (simp add: playSong_at_def unique_ids_playSong)
qed

lemma unique_ids_invoke: "unique_ids (invoke c st) = unique_ids st"
  by (rule unique_ids_cong) (simp_all add: id_of_def deref_def)

lemma unique_ids_playNext:
  assumes "well_formed st" and "unique_ids st" and "render_ok st v"
    and "playNext v force draws st = Some st'"
  shows "unique_ids st'"
  using assms
  by (auto simp: playNext_def Let_def unique_ids_playSong_at unique_ids_invoke
      split: if_splits option.splits)

lemma unique_ids_playPrev:
  assumes "well_formed st" and "unique_ids st" and "render_ok st v"
  shows "unique_ids (playPrev v draw st)"
  using assms by (simp add: playPrev_def Let_def unique_ids_playSong_at)

lemma unique_ids_queue_ops:
  "unique_ids st \<Longrightarrow> unique_ids (addToQueue song st)"
  "unique_ids st \<Longrightarrow> unique_ids (removeFromQueue i st)"
  "unique_ids (clearQueue st)"
  "unique_ids st \<Longrightarrow> unique_ids (togglePlayMode st)"
proof -
  have ids: "id_of (setQueue_new q st) = id_of st" for q
    by (rule id_of_heap_cong) simp
  show "unique_ids st \<Longrightarrow> unique_ids (addToQueue song st)"
    by (auto simp: unique_ids_def addToQueue_def in_queue_iff ids)
  show "unique_ids st \<Longrightarrow> unique_ids (removeFromQueue i st)"
    by (simp add: unique_ids_def removeFromQueue_def ids distinct_map_filter)
  show "unique_ids (clearQueue st)"
    by (simp add: unique_ids_def clearQueue_def)
  have "id_of (setPlayMode m st) = id_of st" for m
    by (rule id_of_heap_cong) (simp add: setPlayMode_def)
  then show "unique_ids st \<Longrightarrow> unique_ids (togglePlayMode st)"
    by (simp add: unique_ids_def togglePlayMode_def setPlayMode_def)
qed

lemma unique_ids_getSongUrl_resolved:
  "unique_ids (getSongUrl_resolved song fullSong u st) = unique_ids st"
proof (rule unique_ids_cong)
  show "queue (getSongUrl_resolved song fullSong u st) = queue st"
    by (simp add: getSongUrl_resolved_def Let_def split: option.splits)
  fix x
  have "song_id ((heap st)[fullSong := (heap st ! fullSong)\<lparr>url := u\<rparr>] ! x) = song_id (heap st ! x)"
    by (cases "fullSong < length (heap st)") (simp_all add: nth_list_update list_update_beyond)
  then show "id_of (getSongUrl_resolved song fullSong u st) x = id_of st x"
    by (simp add: getSongUrl_resolved_def Let_def id_of_def deref_def split: option.splits)
qed

lemma unique_ids_getSongInfo_resolved:
  assumes wf: "well_formed st" and u: "unique_ids st"
    and v: "song < length (heap st)" and i: "id_of st fullSong = id_of st song"
  shows "unique_ids (getSongInfo_resolved song fullSong info st)"
proof (cases info)
  case None
  then show ?thesis using u by (simp add: getSongInfo_resolved_def)
next
  case (Some inf)
  show ?thesis
  proof (cases "truthy (info_pic inf)")
    case False
    with Some show ?thesis using u by (simp add: getSongInfo_resolved_def)
  next
    case True
    let ?st' = "getSongInfo_resolved song fullSong (Some inf) st"
    let ?n = "length (heap st)"
    have qv: "\<forall>r \<in> set (queue st). r < ?n"
      using wf by (simp add: well_formed_iff)
    have h: "heap ?st' = heap st @ [(deref st fullSong)\<lparr>pic := info_pic inf\<rparr>]"
      using wf v True by (rule getSongInfo_resolved_update(1))
    have q: "queue ?st' = map (\<lambda>s. if id_of st s = id_of st song then ?n else s) (queue st)"
      using wf v True by (rule getSongInfo_resolved_update(3))
    have new: "id_of ?st' ?n = id_of st song"
      using i by (simp add: id_of_def deref_def h)
    have old: "id_of ?st' x = id_of st x" if "x \<in> set (queue st)" for x
      using h qv that by (intro id_of_extend) auto
    have "map (id_of ?st') (queue ?st') = map (id_of st) (queue st)"
      unfolding q by (simp add: new old)
    then show ?thesis
      using u Some by (simp only: unique_ids_def)
  qed
qed

lemma unique_ids_flags:
  "unique_ids (getSongUrl_rejected st) = unique_ids st"
  "unique_ids (getSongInfo_rejected st) = unique_ids st"
  "unique_ids (play_resolved st) = unique_ids st"
  "unique_ids (play_rejected st) = unique_ids st"
  "unique_ids (seek t st) = unique_ids st"
  "unique_ids (handleTimeUpdate t st) = unique_ids st"
  "unique_ids (handleLoadedMetadata d st) = unique_ids st"
  "unique_ids (handleError st) = unique_ids st"
  "unique_ids (handleWaiting st) = unique_ids st"
  "unique_ids (handleCanPlay st) = unique_ids st"
  by (rule unique_ids_cong;
      simp add: getSongUrl_rejected_def getSongInfo_rejected_def play_resolved_def
        play_rejected_def seek_def handleTimeUpdate_def handleLoadedMetadata_def Let_def
        handleError_def handleWaiting_def handleCanPlay_def id_of_def deref_def)+

lemma unique_ids_handle:
  assumes "well_formed st" and "unique_ids st" and "event_ok st e"
    and "render_ok st (first_render st)" and "handle e st = Some st'"
  shows "unique_ids st'"
proof (cases e)
  case (PlaySong song)
  with assms(3,5) have "song < length (heap st)" "st' = playSong (latest st) song st"
    by simp_all
  with assms(1,2) show ?thesis by (simp add: unique_ids_playSong)
next
  case TogglePlay
  with assms(5) have "st' = togglePlay (latest st) st" by simp
  with assms(1,2) render_ok_latest(1) [OF assms(1)] show ?thesis
    by (simp add: unique_ids_togglePlay)
next
  case (PlayNext force draws)
  with assms(5) have "playNext (nav_render st) force draws st = Some st'" by simp
  with assms(1,2) render_ok_latest(2) [OF assms(1)] show ?thesis
    by (rule unique_ids_playNext)
next
  case (PlayPrev draw)
  with assms(5) have "st' = playPrev (nav_render st) draw st" by simp
  with assms(1,2) render_ok_latest(2) [OF assms(1)] show ?thesis
    by (simp add: unique_ids_playPrev)
next
  case (Ended draws)
  with assms(5) have "playNext (first_render st) False draws st = Some st'"
    by (simp add: handleEnded_def)
  with assms(1,2,4) show ?thesis
    by (rule unique_ids_playNext)
next
  case (InfoResolved song fullSong info)
  with assms(3,5) have "song < length (heap st)" "id_of st fullSong = id_of st song"
    "st' = getSongInfo_resolved song fullSong info st"
    by simp_all
  with assms(1,2) show ?thesis by (simp add: unique_ids_getSongInfo_resolved)
next
  case (UrlResolved song fullSong u)
  with assms(2,5) show ?thesis by (auto simp: unique_ids_getSongUrl_resolved)
qed (use assms(2,5) in \<open>auto simp: unique_ids_queue_ops unique_ids_flags\<close>)

subsection \<open>The invariants of a run\<close>

text \<open>
  An event whose references point into the store takes a well-formed session with a queue
  unique by identifier to another one, and the references kept by the listeners stay
  valid.
\<close>

lemma react_invariant:
  assumes "well_formed st" and "unique_ids st" and "render_ok st (first_render st)"
    and "event_ok st e" and "react c e st = Some st'"
  shows "well_formed st'" and "unique_ids st'" and "render_ok st' (first_render st')"
    and "revision st' = revision st"
proof -
  from assms(5) obtain s where s: "handle e st = Some s" and st': "st' = commit c s"
    by (auto simp: react_def)
  show "well_formed st'"
    unfolding st' well_formed_commit using assms(1,4) s by (rule well_formed_handle)
  show "unique_ids st'"
    unfolding st' unique_ids_commit using assms(1,2,4,3) s by (rule unique_ids_handle)
  have "render_ok s (first_render st)"
    using assms(3) handle_keeps(3) [OF s] by (rule render_ok_grows)
  then show "render_ok st' (first_render st')"
    unfolding st' by (simp add: render_ok_iff commit_same handle_keeps(2) [OF s])
  show "revision st' = revision st"
    unfolding st' by (simp add: commit_same handle_keeps(1) [OF s])
qed

subsection \<open>The mounted session\<close>

text \<open>
  Mounting yields a well-formed session with an audio element and nothing scheduled, whose
  listeners hold the render of the state; its queue is the persisted one, and is unique by
  identifier when the persisted queue was.
\<close>

lemma mount_session:
  assumes "mount c rv ls h ctx = Some st"
  shows "well_formed st" and "audioRef st = Some \<lparr>src = []\<rparr>" and "changed st = {}"
    and "revision st = rv" and "first_render st = latest st"
    and "render_ok st (first_render st)"
    and "rv = Later \<Longrightarrow>
           as_queue c (getLocal (parse c) ls key_queue (JArr [])) = Some (map (deref st) (queue st))"
    and "distinct (map song_id (map (deref st) (queue st))) \<Longrightarrow> unique_ids st"
proof -
  from assms obtain i where i: "PlayerProvider_init c rv ls h = Some i"
    and st: "st = (commit c i)\<lparr>audioRef := Some \<lparr>src = []\<rparr>, audioCtxRef := ctx\<rparr>"
    by (auto simp: mount_def split: option.splits revision.splits localStorage.splits)
  from i obtain cur q m t where ini: "i = initial_state rv cur q m t h"
    by (cases rv) (auto simp: PlayerProvider_init_def Let_def split: option.splits)
  have d: "deref st = deref i"
    unfolding st by (rule ext) (simp add: deref_def commit_same)
  have q: "queue st = queue i"
    unfolding st by (simp add: commit_same)
  have wi: "well_formed i" unfolding ini by (rule initial_state_fields)
  then have "well_formed (commit c i)"
    by (simp add: well_formed_commit)
  then show w: "well_formed st"
    unfolding st by (simp add: well_formed_iff)
  show "audioRef st = Some \<lparr>src = []\<rparr>"
    unfolding st by simp
  show "changed st = {}"
    unfolding st by (simp add: commit_same)
  show "revision st = rv"
    unfolding st ini by (simp add: commit_same initial_state_fields)
  have "first_render i = latest i" unfolding ini by (rule initial_state_fields)
  then show f: "first_render st = latest st"
    unfolding st by (simp add: commit_same latest_def)
  show "render_ok st (first_render st)"
    unfolding f using w by (rule render_ok_latest)
  {
    assume "rv = Later"
    with i have "as_queue c (getLocal (parse c) ls key_queue (JArr []))
                   = Some (map (deref i) (queue i))"
      by (simp add: PlayerProvider_init_Some)
    then show "as_queue c (getLocal (parse c) ls key_queue (JArr []))
                 = Some (map (deref st) (queue st))"
      unfolding d q .
  }
  assume "distinct (map song_id (map (deref st) (queue st)))"
  then show "unique_ids st"
    by (simp add: unique_ids_def id_of_def [abs_def] comp_def)
qed

end
